theory Spec2Isabelle
  imports Complex_Main "HOL-Library.Sublist" "HOL-Library.Product_Lexorder" "HOL-Library.Multiset"
begin

section \<open>Python values used by the models\<close>

text \<open>
  A Python \<open>dict\<close> keeps its keys unique and in insertion order, and
  \<open>list(d.keys())[i]\<close> reads that order, so a dict is an association list with
  distinct keys: \<open>d[k] = v\<close> overwrites in place or appends, \<open>del d[k]\<close> removes the
  binding, \<open>d.get(k)\<close> is \<open>map_of d k\<close>.
\<close>

fun dict_set :: "('k \<times> 'v) list \<Rightarrow> 'k \<Rightarrow> 'v \<Rightarrow> ('k \<times> 'v) list" where
  "dict_set [] k v = [(k, v)]"
| "dict_set ((k', v') # d) k v = (if k' = k then (k, v) # d else (k', v') # dict_set d k v)"

definition dict_del :: "('k \<times> 'v) list \<Rightarrow> 'k \<Rightarrow> ('k \<times> 'v) list" where
  "dict_del d k = filter (\<lambda>kv. fst kv \<noteq> k) d"

definition dict_keys :: "('k \<times> 'v) list \<Rightarrow> 'k list" where
  "dict_keys d = map fst d"

text \<open>\<open>xs[:n]\<close> for a Python int \<open>n\<close>: a negative \<open>n\<close> counts from the end.\<close>

definition py_slice_to :: "'a list \<Rightarrow> int \<Rightarrow> 'a list" where
  "py_slice_to xs n = (if 0 \<le> n then take (nat n) xs else take (length xs - nat (- n)) xs)"

datatype py_error = OverflowError | IndexError | KeyError | AttributeError | LibraryError string

section \<open>automentor/core/models.py: MemoryEntry\<close>

text \<open>
  \<open>created_at\<close> is a naive \<open>datetime\<close>, modelled as the number of microseconds since
  \<open>datetime.min\<close> (0001-01-01T00:00:00). \<open>importance\<close> and the embedding are Python
  floats, modelled as reals (rounding is not modelled). \<open>metadata\<close> is a JSON object,
  modelled as a dict of strings.
\<close>

type_synonym datetime = int

record MemoryEntry =
  mem_id :: string
  user_id :: string
  content :: string
  mem_type :: string
  metadata :: "(string \<times> string) list"
  embedding :: "real list option"
  created_at :: datetime
  importance :: real

section \<open>automentor/core/memory/vector_store.py: VectorMemoryStore\<close>

text \<open>
  The object's fields are \<open>index\<close> (the rows of the FAISS \<open>IndexFlatIP\<close>, in the order
  they were added), \<open>memories\<close> and \<open>user_memories\<close>. The two files under
  \<open>store_path\<close> are \<open>disk\<close>; \<open>io_log\<close> records every file the object opens, in order.
\<close>

datatype io_event = ReadIndex | ReadMemories | WriteIndex | WriteMemories

record files =
  index_file :: "real list list option"
  memories_file :: "((string \<times> MemoryEntry) list \<times> (string \<times> string list) list) option"

record VectorMemoryStore =
  index :: "real list list"
  memories :: "(string \<times> MemoryEntry) list"
  user_memories :: "(string \<times> string list) list"
  disk :: files
  io_log :: "io_event list"

text \<open>\<open>faiss.normalize_L2\<close> on one row: a row of norm 0 is left as it is.\<close>

definition normalize_L2 :: "real list \<Rightarrow> real list" where
  "normalize_L2 v = (let nr = sum_list (map (\<lambda>x. x * x) v)
                     in if 0 < nr then map (\<lambda>x. x / sqrt nr) v else v)"

definition load_store :: "VectorMemoryStore \<Rightarrow> VectorMemoryStore" where
  "load_store s =
     (let s1 = (case index_file (disk s) of
                  None \<Rightarrow> s
                | Some ix \<Rightarrow> s\<lparr>index := ix, io_log := io_log s @ [ReadIndex]\<rparr>)
      in case memories_file (disk s1) of
           None \<Rightarrow> s1
         | Some (mems, um) \<Rightarrow>
             s1\<lparr>memories := fold (\<lambda>(k, m) d. dict_set d k m) mems (memories s1),
                user_memories := um,
                io_log := io_log s1 @ [ReadMemories]\<rparr>)"

definition save_store :: "VectorMemoryStore \<Rightarrow> VectorMemoryStore" where
  "save_store s =
     s\<lparr>disk := \<lparr>index_file = Some (index s),
                 memories_file = Some (memories s, user_memories s)\<rparr>,
       io_log := io_log s @ [WriteIndex, WriteMemories]\<rparr>"

text \<open>\<open>__init__\<close>: empty fields, then \<open>_load_store\<close>, the only call of it.\<close>

definition new_store :: "files \<Rightarrow> VectorMemoryStore" where
  "new_store fs =
     load_store \<lparr>index = [], memories = [], user_memories = [], disk = fs, io_log = []\<rparr>"

definition no_files :: files where
  "no_files = \<lparr>index_file = None, memories_file = None\<rparr>"

text \<open>\<open>self.user_memories.get(user_id, [])\<close>\<close>

definition user_ids :: "VectorMemoryStore \<Rightarrow> string \<Rightarrow> string list" where
  "user_ids s u = (case map_of (user_memories s) u of None \<Rightarrow> [] | Some ids \<Rightarrow> ids)"

text \<open>
  \<open>add_memory\<close>. The values the environment supplies are arguments: \<open>enc\<close> is the
  sentence encoder, \<open>memory_id\<close> the string \<open>uuid.uuid4()\<close> returned and \<open>now\<close> the
  clock read by the \<open>created_at\<close> default.
\<close>

definition add_memory ::
  "(string \<Rightarrow> real list) \<Rightarrow> string \<Rightarrow> datetime \<Rightarrow> VectorMemoryStore \<Rightarrow> string \<Rightarrow> string \<Rightarrow>
   string \<Rightarrow> (string \<times> string) list option \<Rightarrow> real \<Rightarrow> VectorMemoryStore \<times> string" where
  "add_memory enc memory_id now s uid cont memory_type md imp =
     (let emb = enc cont;
          memory = \<lparr>mem_id = memory_id, user_id = uid, content = cont, mem_type = memory_type,
                    metadata = (case md of None \<Rightarrow> [] | Some d \<Rightarrow> d),
                    embedding = Some emb, created_at = now, importance = imp\<rparr>;
          s1 = s\<lparr>memories := dict_set (memories s) memory_id memory\<rparr>;
          s2 = (if map_of (user_memories s1) uid = None
                then s1\<lparr>user_memories := dict_set (user_memories s1) uid []\<rparr> else s1);
          s3 = s2\<lparr>user_memories := dict_set (user_memories s2) uid (user_ids s2 uid @ [memory_id])\<rparr>;
          s4 = s3\<lparr>index := index s3 @ [normalize_L2 emb]\<rparr>
      in (save_store s4, memory_id))"

definition update_memory_importance :: "VectorMemoryStore \<Rightarrow> string \<Rightarrow> real \<Rightarrow> VectorMemoryStore" where
  "update_memory_importance s memory_id imp =
     (case map_of (memories s) memory_id of
        None \<Rightarrow> s
      | Some m \<Rightarrow> save_store (s\<lparr>memories := dict_set (memories s) memory_id (m\<lparr>importance := imp\<rparr>)\<rparr>))"

definition delete_memory :: "VectorMemoryStore \<Rightarrow> string \<Rightarrow> string \<Rightarrow> VectorMemoryStore" where
  "delete_memory s memory_id uid =
     (if memory_id \<in> set (dict_keys (memories s)) \<and> memory_id \<in> set (user_ids s uid)
      then save_store (s\<lparr>memories := dict_del (memories s) memory_id,
                          user_memories := dict_set (user_memories s) uid
                                             (remove1 memory_id (user_ids s uid))\<rparr>)
      else s)"

text \<open>
  \<open>get_user_context\<close>: \<open>list.sort(key, reverse=True)\<close> is a stable descending sort,
  that is, the reverse of the stable ascending sort of the reversed list; the key is the
  tuple \<open>(created_at, importance)\<close>, compared lexicographically.
\<close>

definition sort_desc :: "('a \<Rightarrow> 'k::linorder) \<Rightarrow> 'a list \<Rightarrow> 'a list" where
  "sort_desc f xs = rev (sort_key f (rev xs))"

definition recency_key :: "MemoryEntry \<Rightarrow> datetime \<times> real" where
  "recency_key m = (created_at m, importance m)"

definition owned_memories :: "VectorMemoryStore \<Rightarrow> string list \<Rightarrow> MemoryEntry list" where
  "owned_memories s ids = List.map_filter (map_of (memories s)) ids"

definition get_user_context :: "VectorMemoryStore \<Rightarrow> string \<Rightarrow> int \<Rightarrow> MemoryEntry list" where
  "get_user_context s uid context_window =
     (case map_of (user_memories s) uid of
        None \<Rightarrow> []
      | Some ids \<Rightarrow> py_slice_to (sort_desc recency_key (owned_memories s ids)) context_window)"

text \<open>
  \<open>search_memories\<close>. \<open>self.index.search\<close> is the FAISS library: it is the argument
  \<open>faiss_search\<close>, from the index rows, the query row and \<open>k\<close> to the row labels
  \<open>indices[0]\<close> (\<open>-1\<close> where there are fewer than \<open>k\<close> rows) or an exception.
  The loop is \<open>collect_results\<close>; \<open>key_at\<close> is
  \<open>list(self.memories.keys())[idx] if idx < len(self.memories) else None\<close>.
\<close>

definition py_index :: "'a list \<Rightarrow> int \<Rightarrow> py_error + 'a" where
  "py_index xs i =
     (if 0 \<le> i \<and> i < int (length xs) then Inr (xs ! nat i)
      else if i < 0 \<and> - int (length xs) \<le> i then Inr (xs ! nat (int (length xs) + i))
      else Inl IndexError)"

definition key_at :: "(string \<times> MemoryEntry) list \<Rightarrow> int \<Rightarrow> py_error + string option" where
  "key_at d idx =
     (if idx < int (length d)
      then (case py_index (dict_keys d) idx of Inl e \<Rightarrow> Inl e | Inr k \<Rightarrow> Inr (Some k))
      else Inr None)"

definition type_excluded :: "string list option \<Rightarrow> MemoryEntry \<Rightarrow> bool" where
  "type_excluded memory_types m =
     (case memory_types of
        None \<Rightarrow> False
      | Some ts \<Rightarrow> ts \<noteq> [] \<and> mem_type m \<notin> set ts)"

fun collect_results ::
  "VectorMemoryStore \<Rightarrow> string list \<Rightarrow> string list option \<Rightarrow> int \<Rightarrow> int list \<Rightarrow>
   MemoryEntry list \<Rightarrow> py_error + MemoryEntry list" where
  "collect_results s uids memory_types top_k [] results = Inr results"
| "collect_results s uids memory_types top_k (idx # rest) results =
     (if idx = - 1 then collect_results s uids memory_types top_k rest results
      else case key_at (memories s) idx of
             Inl e \<Rightarrow> Inl e
           | Inr None \<Rightarrow> collect_results s uids memory_types top_k rest results
           | Inr (Some memory_id) \<Rightarrow>
               if memory_id \<noteq> [] \<and> memory_id \<in> set uids
               then (case map_of (memories s) memory_id of
                       None \<Rightarrow> Inl KeyError
                     | Some memory \<Rightarrow>
                         if type_excluded memory_types memory
                         then collect_results s uids memory_types top_k rest results
                         else if top_k \<le> int (length (results @ [memory]))
                              then Inr (results @ [memory])
                              else collect_results s uids memory_types top_k rest (results @ [memory]))
               else collect_results s uids memory_types top_k rest results)"

definition search_memories ::
  "(real list list \<Rightarrow> real list \<Rightarrow> int \<Rightarrow> py_error + int list) \<Rightarrow> (string \<Rightarrow> real list) \<Rightarrow>
   VectorMemoryStore \<Rightarrow> string \<Rightarrow> string \<Rightarrow> int \<Rightarrow> string list option \<Rightarrow>
   py_error + MemoryEntry list" where
  "search_memories faiss_search enc s uid query top_k memory_types =
     (if map_of (user_memories s) uid = None \<or> user_ids s uid = [] then Inr []
      else case faiss_search (index s) (normalize_L2 (enc query))
                  (min (top_k * 3) (int (length (memories s)))) of
             Inl e \<Rightarrow> Inl e
           | Inr indices \<Rightarrow> collect_results s (user_ids s uid) memory_types top_k indices [])"

text \<open>
  The search of a flat inner-product index, as FAISS documents it: the \<open>k\<close> rows of
  largest inner product with the query, best first, padded with \<open>-1\<close>; \<open>k\<close> must be
  positive. Rows of equal score are taken in row order here.
\<close>

definition inner_product :: "real list \<Rightarrow> real list \<Rightarrow> real" where
  "inner_product x y = sum_list (map2 (*) x y)"

definition IndexFlatIP_search :: "real list list \<Rightarrow> real list \<Rightarrow> int \<Rightarrow> py_error + int list" where
  "IndexFlatIP_search rows q k =
     (if k \<le> 0 then Inl (LibraryError ''AssertionError'')
      else let ranked = sort_desc (\<lambda>i. inner_product (rows ! i) q) [0..<length rows];
               labels = map int (take (nat k) ranked)
           in Inr (labels @ replicate (nat k - length labels) (- 1)))"

subsection \<open>Sequences of write operations\<close>

datatype store_op =
    Add string datetime string string string "(string \<times> string) list option" real
  | UpdateImportance string real
  | Delete string string

fun apply_op :: "(string \<Rightarrow> real list) \<Rightarrow> VectorMemoryStore \<Rightarrow> store_op \<Rightarrow> VectorMemoryStore" where
  "apply_op enc s (Add memory_id now uid cont memory_type md imp) =
     fst (add_memory enc memory_id now s uid cont memory_type md imp)"
| "apply_op enc s (UpdateImportance memory_id imp) = update_memory_importance s memory_id imp"
| "apply_op enc s (Delete memory_id uid) = delete_memory s memory_id uid"

definition run :: "(string \<Rightarrow> real list) \<Rightarrow> VectorMemoryStore \<Rightarrow> store_op list \<Rightarrow> VectorMemoryStore" where
  "run enc s ops = foldl (apply_op enc) s ops"

text \<open>
  \<open>uuid.uuid4()\<close> returns an identifier that is not in use: along a run, the identifier
  of every \<open>Add\<close> is none of the keys of \<open>memories\<close> at that moment.
\<close>

fun is_fresh :: "VectorMemoryStore \<Rightarrow> store_op \<Rightarrow> bool" where
  "is_fresh s (Add memory_id now uid cont memory_type md imp) =
     (memory_id \<notin> set (dict_keys (memories s)))"
| "is_fresh s (UpdateImportance memory_id imp) = True"
| "is_fresh s (Delete memory_id uid) = True"

fun fresh_run :: "(string \<Rightarrow> real list) \<Rightarrow> VectorMemoryStore \<Rightarrow> store_op list \<Rightarrow> bool" where
  "fresh_run enc s [] = True"
| "fresh_run enc s (x # ops) = (is_fresh s x \<and> fresh_run enc (apply_op enc s x) ops)"

fun is_add :: "store_op \<Rightarrow> bool" where
  "is_add (Add memory_id now uid cont memory_type md imp) = True"
| "is_add (UpdateImportance memory_id imp) = False"
| "is_add (Delete memory_id uid) = False"

subsection \<open>Consistency of the two dicts\<close>

text \<open>
  \<open>store_consistent\<close>: every id in a user's list is a key of \<open>memories\<close> whose entry
  belongs to that user, and every key of \<open>memories\<close> is in the list of its entry's user.
  \<open>store_inv\<close> adds what makes it inductive: the dicts have distinct keys, no list
  holds an id twice, and an entry is stored under its own id.
\<close>

definition store_consistent :: "VectorMemoryStore \<Rightarrow> bool" where
  "store_consistent s \<longleftrightarrow>
     (\<forall>u ids i. map_of (user_memories s) u = Some ids \<and> i \<in> set ids \<longrightarrow>
        (\<exists>m. map_of (memories s) i = Some m \<and> user_id m = u)) \<and>
     (\<forall>i m. map_of (memories s) i = Some m \<longrightarrow>
        (\<exists>ids. map_of (user_memories s) (user_id m) = Some ids \<and> i \<in> set ids))"

definition store_inv :: "VectorMemoryStore \<Rightarrow> bool" where
  "store_inv s \<longleftrightarrow>
     store_consistent s \<and>
     distinct (dict_keys (memories s)) \<and>
     distinct (dict_keys (user_memories s)) \<and>
     (\<forall>u ids. map_of (user_memories s) u = Some ids \<longrightarrow> distinct ids) \<and>
     (\<forall>i m. map_of (memories s) i = Some m \<longrightarrow> mem_id m = i)"

text \<open>The condition under which \<open>delete_memory\<close> changes anything.\<close>

definition delete_guard :: "VectorMemoryStore \<Rightarrow> string \<Rightarrow> string \<Rightarrow> bool" where
  "delete_guard s mid uid \<longleftrightarrow> mid \<in> set (dict_keys (memories s)) \<and> mid \<in> set (user_ids s uid)"

text \<open>Whether a write operation reaches its \<open>_save_store\<close> call.\<close>

fun takes_effect :: "VectorMemoryStore \<Rightarrow> store_op \<Rightarrow> bool" where
  "takes_effect s (Add memory_id now uid cont memory_type md imp) = True"
| "takes_effect s (UpdateImportance memory_id imp) = (map_of (memories s) memory_id \<noteq> None)"
| "takes_effect s (Delete memory_id uid) = delete_guard s memory_id uid"

subsection \<open>Positional resolution of search rows, and an example encoder\<close>

text \<open>
  What resolving FAISS rows by position means: a row label \<open>idx\<close> within
  \<open>0..<len(memories)\<close> stands for the \<open>idx\<close>-th entry of \<open>memories\<close> in insertion
  order; of these entries, those whose key is in the user's id list and whose type passes
  the filter are the results, in row order.
\<close>

definition positional_results ::
  "VectorMemoryStore \<Rightarrow> string list \<Rightarrow> string list option \<Rightarrow> int list \<Rightarrow> MemoryEntry list" where
  "positional_results s uids memory_types rows =
     map snd
       (filter (\<lambda>kv. fst kv \<noteq> [] \<and> fst kv \<in> set uids \<and> \<not> type_excluded memory_types (snd kv))
          (map (\<lambda>idx. memories s ! nat idx)
             (filter (\<lambda>idx. 0 \<le> idx \<and> idx < int (length (memories s))) rows)))"

text \<open>An encoder for the examples: one of two unit vectors, by the parity of the length.\<close>

definition toy_encoder :: "string \<Rightarrow> real list" where
  "toy_encoder cont = (if even (length cont) then [1, 0] else [0, 1])"

section \<open>automentor/core/memory/memory_manager.py: cleanup_old_memories\<close>

text \<open>
  \<open>datetime.now() - timedelta(days=retention_days)\<close>: \<open>timedelta\<close> takes at most
  999999999 days, and the difference must lie between \<open>datetime.min\<close> and
  \<open>datetime.max\<close> (9999-12-31T23:59:59.999999); both raise \<open>OverflowError\<close> otherwise.
\<close>

definition datetime_max :: datetime where
  "datetime_max = 3652059 * 86400000000 - 1"

definition timedelta_days :: "int \<Rightarrow> py_error + int" where
  "timedelta_days n =
     (if - 999999999 \<le> n \<and> n \<le> 999999999 then Inr (n * 86400000000) else Inl OverflowError)"

definition datetime_sub :: "datetime \<Rightarrow> int \<Rightarrow> py_error + datetime" where
  "datetime_sub t d =
     (let r = t - d in if 0 \<le> r \<and> r \<le> datetime_max then Inr r else Inl OverflowError)"

definition cutoff_date :: "datetime \<Rightarrow> int \<Rightarrow> py_error + datetime" where
  "cutoff_date now retention_days =
     (case timedelta_days retention_days of
        Inl e \<Rightarrow> Inl e
      | Inr d \<Rightarrow> datetime_sub now d)"

definition expendable :: "datetime \<Rightarrow> MemoryEntry \<Rightarrow> bool" where
  "expendable cutoff m =
     (created_at m < cutoff \<and> importance m < 7 / 10 \<and>
      mem_type m \<notin> set [''goal_update'', ''insight''])"

fun cleanup_loop ::
  "VectorMemoryStore \<Rightarrow> string \<Rightarrow> datetime \<Rightarrow> MemoryEntry list \<Rightarrow> nat \<Rightarrow> VectorMemoryStore \<times> nat" where
  "cleanup_loop s uid cutoff [] deleted_count = (s, deleted_count)"
| "cleanup_loop s uid cutoff (m # ms) deleted_count =
     (if expendable cutoff m
      then cleanup_loop (delete_memory s (mem_id m) uid) uid cutoff ms (deleted_count + 1)
      else cleanup_loop s uid cutoff ms deleted_count)"

definition cleanup_old_memories ::
  "VectorMemoryStore \<Rightarrow> datetime \<Rightarrow> string \<Rightarrow> int \<Rightarrow> py_error + VectorMemoryStore \<times> nat" where
  "cleanup_old_memories s now uid retention_days =
     (case cutoff_date now retention_days of
        Inl e \<Rightarrow> Inl e
      | Inr cutoff \<Rightarrow> Inr (cleanup_loop s uid cutoff (get_user_context s uid 1000) 0))"

section \<open>automentor/core/planning/task_planner.py\<close>

subsection \<open>Strings\<close>

text \<open>
  \<open>str.lower()\<close> on the letters \<open>A\<close> to \<open>Z\<close>; every other character is kept (the
  descriptions are taken to be ASCII text). \<open>contains k s\<close> is Python's \<open>k in s\<close> on
  strings: \<open>k\<close> occurs in \<open>s\<close> as a contiguous substring.
\<close>

definition lower_char :: "char \<Rightarrow> char" where
  "lower_char c =
     (if 65 \<le> (of_char c :: nat) \<and> (of_char c :: nat) \<le> 90 then char_of (of_char c + 32 :: nat) else c)"

definition lower :: "string \<Rightarrow> string" where
  "lower s = map lower_char s"

fun contains :: "string \<Rightarrow> string \<Rightarrow> bool" where
  "contains k [] = (k = [])"
| "contains k (c # s) = (prefix k (c # s) \<or> contains k s)"

subsection \<open>_categorize_goal\<close>

definition categorize_goal :: "string \<Rightarrow> string" where
  "categorize_goal description =
     (let description_lower = lower description in
      if list_ex (\<lambda>keyword. contains keyword description_lower)
           [''developer'', ''programming'', ''coding'', ''software'', ''web'', ''app'']
      then ''software_developer''
      else if list_ex (\<lambda>keyword. contains keyword description_lower)
           [''data'', ''analytics'', ''machine learning'', ''ai'', ''statistics'']
      then ''data_scientist''
      else if list_ex (\<lambda>keyword. contains keyword description_lower)
           [''product'', ''manager'', ''strategy'', ''roadmap'', ''stakeholder'']
      then ''product_manager''
      else if list_ex (\<lambda>keyword. contains keyword description_lower)
           [''marketing'', ''digital'', ''social media'', ''content'', ''brand'']
      then ''marketing''
      else if list_ex (\<lambda>keyword. contains keyword description_lower)
           [''sales'', ''business development'', ''account'', ''revenue'']
      then ''sales''
      else ''general'')"

text \<open>
  The same as a table: the categories with their word lists, in the fixed order, and
  the first category one of whose words occurs in the text.
\<close>

definition category_keywords :: "(string \<times> string list) list" where
  "category_keywords =
     [(''software_developer'', [''developer'', ''programming'', ''coding'', ''software'', ''web'', ''app'']),
      (''data_scientist'', [''data'', ''analytics'', ''machine learning'', ''ai'', ''statistics'']),
      (''product_manager'', [''product'', ''manager'', ''strategy'', ''roadmap'', ''stakeholder'']),
      (''marketing'', [''marketing'', ''digital'', ''social media'', ''content'', ''brand'']),
      (''sales'', [''sales'', ''business development'', ''account'', ''revenue''])]"

definition occurs_in :: "string \<Rightarrow> string \<Rightarrow> bool" where
  "occurs_in k s \<longleftrightarrow> (\<exists>before after. s = before @ k @ after)"

definition first_matching_category :: "string \<Rightarrow> string" where
  "first_matching_category s =
     (case find (\<lambda>entry. \<exists>k \<in> set (snd entry). occurs_in k s) category_keywords of
        None \<Rightarrow> ''general''
      | Some entry \<Rightarrow> fst entry)"

subsection \<open>_calculate_complexity_score and _select_optimal_strategy\<close>

text \<open>
  A value of the \<open>complexity_factors\<close> dict is a string, a list of strings, or something
  else. The floats are reals. \<open>analysis\<close> holds the entries of the analysis dict that
  \<open>_select_optimal_strategy\<close> reads; its \<open>goal\<close> and \<open>user_context\<close> arguments are not
  used.
\<close>

datatype factor_value = Str string | Lst "string list" | Other

datatype PlanningStrategy = LINEAR | PARALLEL | MILESTONE | ADAPTIVE

definition weights :: "(string \<times> real) list" where
  "weights = [(''skill_gap'', 3 / 10), (''time_constraint'', 2 / 10),
              (''resource_requirements'', 2 / 10), (''dependencies'', 3 / 10)]"

definition scores :: "(string \<times> real) list" where
  "scores = [(''low'', 2 / 10), (''medium'', 5 / 10), (''high'', 8 / 10), (''unknown'', 5 / 10)]"

fun factor_score :: "factor_value \<Rightarrow> real" where
  "factor_score (Str v) = (case map_of scores v of None \<Rightarrow> 5 / 10 | Some x \<Rightarrow> x)"
| "factor_score (Lst l) = min (8 / 10) (real (length l) * (1 / 10))"
| "factor_score Other = 5 / 10"

definition calculate_complexity_score :: "(string \<times> factor_value) list \<Rightarrow> real" where
  "calculate_complexity_score factors =
     foldl (\<lambda>total_score (factor, v).
              case map_of weights factor of
                None \<Rightarrow> total_score
              | Some w \<Rightarrow> total_score + w * factor_score v)
           0 factors"

record analysis =
  complexity_factors :: "(string \<times> factor_value) list"
  complexity_score :: real

definition select_optimal_strategy :: "analysis \<Rightarrow> py_error + PlanningStrategy" where
  "select_optimal_strategy a =
     (let complexity = complexity_score a in
      case map_of (complexity_factors a) ''time_constraint'' of
        None \<Rightarrow> Inl KeyError
      | Some time_constraint \<Rightarrow>
          Inr (if complexity > 7 / 10 then MILESTONE
               else if time_constraint = Str ''high'' then PARALLEL
               else if complexity < 3 / 10 then LINEAR
               else MILESTONE))"

text \<open>The score of a level name, as one function of the string.\<close>

definition level_score :: "string \<Rightarrow> real" where
  "level_score v =
     (if v = ''low'' then 2 / 10 else if v = ''medium'' then 5 / 10
      else if v = ''high'' then 8 / 10 else 5 / 10)"

section \<open>mental-health-assistant/backend/services/ai_chat.py: AIChat\<close>

text \<open>
  The tokenizer and the DialoGPT model are outside the repository: \<open>model_reply\<close> maps
  the number of the call and the prompt to the decoded reply, or to the exception some
  step of the pipeline raised (an instance of \<open>Exception\<close>, with its message). The two
  \<open>random.choice\<close> draws are the arguments \<open>r1\<close> and \<open>r2\<close>. The state records what was
  logged with \<open>logger.error\<close> and how often the model was run. \<open>sentiment_label\<close> is a
  string.
\<close>

datatype exn = Exception string

record chat_entry =
  is_user_message :: bool
  message :: string
  response :: "string option"

record ai_state =
  error_log :: "string list"
  generate_calls :: nat

definition empathetic_starters :: "(string \<times> string list) list" where
  "empathetic_starters =
     [(''positive'', [''I'm so glad to hear that! '', ''That sounds wonderful! '',
                      ''It's great that you're feeling positive! '']),
      (''negative'', [''I hear that you're going through a difficult time. '',
                      ''That sounds really challenging. '',
                      ''I understand this must be hard for you. '']),
      (''neutral'', [''I appreciate you sharing that with me. '',
                     ''Thank you for telling me about this. '',
                     ''I'm here to listen and support you. ''])]"

definition supportive_endings :: "string list" where
  "supportive_endings =
     ['' How can I support you further?'',
      '' What would be most helpful for you right now?'',
      '' Is there anything specific you'd like to talk about?'',
      '' I'm here for you whenever you need to talk.'']"

text \<open>\<open>str.strip()\<close>: the ASCII whitespace characters are removed from both ends.\<close>

definition is_space :: "char \<Rightarrow> bool" where
  "is_space c \<longleftrightarrow> (of_char c :: nat) \<in> {9, 10, 11, 12, 13, 28, 29, 30, 31, 32}"

definition strip :: "string \<Rightarrow> string" where
  "strip s = rev (dropWhile is_space (rev (dropWhile is_space s)))"

text \<open>\<open>random.choice(xs)\<close> of a non-empty list, the draw being \<open>r\<close>.\<close>

definition choice :: "'a list \<Rightarrow> nat \<Rightarrow> 'a" where
  "choice xs r = xs ! (r mod length xs)"

definition format_entry :: "chat_entry \<Rightarrow> string" where
  "format_entry msg =
     (if is_user_message msg then ''Human: '' @ message msg @ '' ''
      else ''AI: '' @ (case response msg of None \<Rightarrow> ''None'' | Some r \<Rightarrow> r) @ '' '')"

definition prepare_context :: "string \<Rightarrow> chat_entry list option \<Rightarrow> string" where
  "prepare_context user_message conversation_history =
     (case conversation_history of
        None \<Rightarrow> ''Human: '' @ user_message @ '' AI:''
      | Some h \<Rightarrow>
          if h = [] then ''Human: '' @ user_message @ '' AI:''
          else concat (map format_entry (drop (length h - 3) h)) @
               ''Human: '' @ user_message @ '' AI:'')"

definition add_empathetic_framing :: "nat \<Rightarrow> nat \<Rightarrow> string \<Rightarrow> string \<Rightarrow> string" where
  "add_empathetic_framing r1 r2 resp sentiment_label =
     (let starters = (case map_of empathetic_starters sentiment_label of
                        Some l \<Rightarrow> l
                      | None \<Rightarrow> [''I appreciate you sharing that with me. '',
                                  ''Thank you for telling me about this. '',
                                  ''I'm here to listen and support you. '']);
          starter = choice starters r1;
          ending = choice supportive_endings r2;
          resp1 = strip resp;
          resp2 = (if resp1 = [] then ''I'm here to listen and support you.'' else resp1)
      in starter @ resp2 @ ending)"

definition fallback_responses :: "(string \<times> string) list" where
  "fallback_responses =
     [(''positive'', ''I'm so glad you're feeling good! It's wonderful to hear positive thoughts. How can I help you maintain this positive mood?''),
      (''negative'', ''I hear that you're going through a tough time, and I want you to know that your feelings are valid. I'm here to support you. What would be most helpful right now?''),
      (''neutral'', ''Thank you for sharing with me. I'm here to listen and provide support. What's on your mind today?'')]"

definition get_fallback_response :: "string \<Rightarrow> string" where
  "get_fallback_response sentiment_label =
     (case map_of fallback_responses sentiment_label of
        Some r \<Rightarrow> r
      | None \<Rightarrow> ''Thank you for sharing with me. I'm here to listen and provide support. What's on your mind today?'')"

text \<open>
  \<open>generate_response\<close>: the body of the \<open>try\<close> is \<open>generation_path\<close>; the handler logs
  and returns the fallback. The result is \<open>Inl\<close> when an exception leaves the function.
\<close>

definition generation_path ::
  "(nat \<Rightarrow> string \<Rightarrow> exn + string) \<Rightarrow> nat \<Rightarrow> nat \<Rightarrow> ai_state \<Rightarrow> string \<Rightarrow> string \<Rightarrow>
   chat_entry list option \<Rightarrow> (exn + string) \<times> ai_state" where
  "generation_path model_reply r1 r2 st user_message sentiment_label conversation_history =
     (let context = prepare_context user_message conversation_history;
          st1 = st\<lparr>generate_calls := generate_calls st + 1\<rparr>
      in case model_reply (generate_calls st) context of
           Inl e \<Rightarrow> (Inl e, st1)
         | Inr resp \<Rightarrow> (Inr (strip (add_empathetic_framing r1 r2 resp sentiment_label)), st1))"

definition generate_response ::
  "(nat \<Rightarrow> string \<Rightarrow> exn + string) \<Rightarrow> nat \<Rightarrow> nat \<Rightarrow> ai_state \<Rightarrow> string \<Rightarrow> string \<Rightarrow>
   chat_entry list option \<Rightarrow> (exn + string) \<times> ai_state" where
  "generate_response model_reply r1 r2 st user_message sentiment_label conversation_history =
     (case generation_path model_reply r1 r2 st user_message sentiment_label conversation_history of
        (Inr r, st1) \<Rightarrow> (Inr r, st1)
      | (Inl (Exception msg), st1) \<Rightarrow>
          (Inr (get_fallback_response sentiment_label),
           st1\<lparr>error_log := error_log st1 @ [''Error generating AI response: '' @ msg]\<rparr>))"

text \<open>A model for the examples: every run of it raises.\<close>

definition failing_model :: "nat \<Rightarrow> string \<Rightarrow> exn + string" where
  "failing_model n context = Inl (Exception ''CUDA out of memory'')"

section \<open>mental-health-assistant/backend/routes/mood.py: log_mood\<close>

text \<open>
  The request body as \<open>request.get_json()\<close> returns it. Python's view of a value:
  \<open>truthy\<close> is its truth value, \<open>isinstance_int\<close> is \<open>isinstance(v, int)\<close>, which holds
  of the booleans too (\<open>bool\<close> is a subclass of \<open>int\<close>, \<open>True == 1\<close>), and \<open>int_value\<close>
  is the number such a value compares as.
\<close>

datatype json =
    JNull | JBool bool | JInt int | JFloat real | JStr string
  | JArr "json list" | JObj "(string \<times> json) list"

fun truthy :: "json \<Rightarrow> bool" where
  "truthy JNull = False"
| "truthy (JBool b) = b"
| "truthy (JInt n) = (n \<noteq> 0)"
| "truthy (JFloat x) = (x \<noteq> 0)"
| "truthy (JStr s) = (s \<noteq> [])"
| "truthy (JArr xs) = (xs \<noteq> [])"
| "truthy (JObj d) = (d \<noteq> [])"

fun isinstance_int :: "json \<Rightarrow> bool" where
  "isinstance_int (JInt n) = True"
| "isinstance_int (JBool b) = True"
| "isinstance_int v = False"

fun int_value :: "json \<Rightarrow> int" where
  "int_value (JInt n) = n"
| "int_value (JBool b) = (if b then 1 else 0)"
| "int_value v = 0"

text \<open>\<open>data.get(key)\<close> and \<open>data.get(key, default)\<close> on a dict.\<close>

definition dict_get :: "(string \<times> json) list \<Rightarrow> string \<Rightarrow> json \<Rightarrow> json" where
  "dict_get d k dflt = (case map_of d k of None \<Rightarrow> dflt | Some v \<Rightarrow> v)"

text \<open>
  The \<open>moods\<close> table and the SQLAlchemy session. A \<open>Mood\<close> object is \<open>new_mood\<close> until
  the commit inserts it; the database is outside the repository, so the insert is the
  argument \<open>db_insert\<close>: it raises, or gives the text (or NULL) stored in the \<open>tags\<close>
  column. Ids are handed out in increasing order.
\<close>

record new_mood =
  nm_user_id :: int
  nm_score :: int
  nm_notes :: string
  nm_tags :: json

record Mood =
  mood_id :: nat
  mood_user_id :: int
  mood_score :: int
  mood_notes :: string
  mood_date_recorded :: datetime
  mood_tags :: "string option"

datatype log_line = Info_mood_logged int int | Error_log_mood string

record app_db =
  moods :: "Mood list"
  pending :: "new_mood list"
  app_log :: "log_line list"

definition next_id :: "Mood list \<Rightarrow> nat" where
  "next_id rows = Suc (foldr max (map mood_id rows) 0)"

fun insert_all ::
  "(new_mood \<Rightarrow> exn + string option) \<Rightarrow> datetime \<Rightarrow> Mood list \<Rightarrow> new_mood list \<Rightarrow> exn + Mood list" where
  "insert_all db_insert now rows [] = Inr rows"
| "insert_all db_insert now rows (p # ps) =
     (case db_insert p of
        Inl e \<Rightarrow> Inl e
      | Inr stored_tags \<Rightarrow>
          insert_all db_insert now
            (rows @ [\<lparr>mood_id = next_id rows, mood_user_id = nm_user_id p,
                       mood_score = nm_score p, mood_notes = nm_notes p,
                       mood_date_recorded = now, mood_tags = stored_tags\<rparr>]) ps)"

text \<open>\<open>db.session.commit()\<close>: all pending objects are inserted, or none and it raises.\<close>

definition session_commit ::
  "(new_mood \<Rightarrow> exn + string option) \<Rightarrow> datetime \<Rightarrow> app_db \<Rightarrow> exn + app_db" where
  "session_commit db_insert now db =
     (case insert_all db_insert now (moods db) (pending db) of
        Inl e \<Rightarrow> Inl e
      | Inr rows \<Rightarrow> Inr (db\<lparr>moods := rows, pending := []\<rparr>))"

definition session_rollback :: "app_db \<Rightarrow> app_db" where
  "session_rollback db = db\<lparr>pending := []\<rparr>"

text \<open>\<open>Mood.to_dict\<close>; \<open>split_on\<close> is \<open>str.split\<close> with a separator.\<close>

fun split_on :: "char \<Rightarrow> string \<Rightarrow> string list" where
  "split_on sep [] = [[]]"
| "split_on sep (c # cs) =
     (if c = sep then [] # split_on sep cs
      else (case split_on sep cs of [] \<Rightarrow> [[c]] | w # ws \<Rightarrow> (c # w) # ws))"

record mood_dict =
  d_id :: nat
  d_user_id :: int
  d_score :: int
  d_notes :: string
  d_date_recorded :: datetime
  d_tags :: "string list"

definition to_dict :: "Mood \<Rightarrow> mood_dict" where
  "to_dict m =
     \<lparr>d_id = mood_id m, d_user_id = mood_user_id m, d_score = mood_score m,
      d_notes = mood_notes m, d_date_recorded = mood_date_recorded m,
      d_tags = (case mood_tags m of
                  None \<Rightarrow> []
                | Some t \<Rightarrow> if t = [] then [] else split_on CHR '','' t)\<rparr>"

datatype response_body = Error_body string | Mood_body string mood_dict

text \<open>
  The body of the \<open>try\<close>: the response, or the exception raised, with the state at that
  moment. \<open>body\<close> is what \<open>request.get_json()\<close> does: it raises or returns the parsed
  JSON. \<open>uid\<close> is the JWT identity, the handler's \<open>user_id\<close>.
\<close>

definition log_mood_try ::
  "(new_mood \<Rightarrow> exn + string option) \<Rightarrow> datetime \<Rightarrow> int \<Rightarrow> exn + json \<Rightarrow> app_db \<Rightarrow>
   (exn + response_body \<times> nat) \<times> app_db" where
  "log_mood_try db_insert now uid body db =
     (case body of
        Inl e \<Rightarrow> (Inl e, db)
      | Inr (JObj data) \<Rightarrow>
          if \<not> truthy (dict_get data ''score'' JNull) \<or> \<not> isinstance_int (dict_get data ''score'' JNull)
          then (Inr (Error_body ''Mood score (1-5) is required'', 400), db)
          else (case map_of data ''score'' of
                  None \<Rightarrow> (Inl (Exception ''KeyError''), db)
                | Some sc \<Rightarrow>
                    if int_value sc < 1 \<or> int_value sc > 5
                    then (Inr (Error_body ''Mood score must be between 1 and 5'', 400), db)
                    else (case dict_get data ''notes'' (JStr []) of
                            JStr s \<Rightarrow>
                              (let mood = \<lparr>nm_user_id = uid, nm_score = int_value sc,
                                           nm_notes = strip s,
                                           nm_tags = dict_get data ''tags'' (JStr [])\<rparr>;
                                   db1 = db\<lparr>pending := pending db @ [mood]\<rparr>
                               in case session_commit db_insert now db1 of
                                    Inl e \<Rightarrow> (Inl e, db1)
                                  | Inr db2 \<Rightarrow>
                                      (Inr (Mood_body ''Mood logged successfully'' (to_dict (last (moods db2))), 201),
                                       db2\<lparr>app_log := app_log db2 @ [Info_mood_logged uid (int_value sc)]\<rparr>))
                          | _ \<Rightarrow> (Inl (Exception ''AttributeError''), db)))
      | Inr _ \<Rightarrow> (Inl (Exception ''AttributeError''), db))"

definition log_mood ::
  "(new_mood \<Rightarrow> exn + string option) \<Rightarrow> datetime \<Rightarrow> int \<Rightarrow> exn + json \<Rightarrow> app_db \<Rightarrow>
   (response_body \<times> nat) \<times> app_db" where
  "log_mood db_insert now uid body db =
     (case log_mood_try db_insert now uid body db of
        (Inr resp, db1) \<Rightarrow> (resp, db1)
      | (Inl (Exception msg), db1) \<Rightarrow>
          ((Error_body ''Failed to log mood'', 500),
           (session_rollback db1)\<lparr>app_log := app_log db1 @ [Error_log_mood msg]\<rparr>))"

text \<open>
  For the examples: an empty database, and one that accepts every insert and stores a
  string as the tag text and anything else as NULL.
\<close>

definition empty_db :: app_db where
  "empty_db = \<lparr>moods = [], pending = [], app_log = []\<rparr>"

definition accepting_db :: "new_mood \<Rightarrow> exn + string option" where
  "accepting_db p = Inr (case nm_tags p of JStr t \<Rightarrow> Some t | _ \<Rightarrow> None)"

section \<open>Proofs: the vector store\<close>

subsection \<open>Dict and field lemmas\<close>

lemma map_of_dict_set: "map_of (dict_set d k v) = (map_of d)(k \<mapsto> v)"
  by (induction d) (auto simp: fun_eq_iff)

lemma map_of_dict_del: "map_of (dict_del d k) = (map_of d)(k := None)"
  by (induction d) (auto simp: dict_del_def fun_eq_iff)

lemma dict_keys_dict_set:
  "dict_keys (dict_set d k v) = (if k \<in> set (dict_keys d) then dict_keys d else dict_keys d @ [k])"
  by (induction d) (force simp: dict_keys_def)+

lemma distinct_dict_set: "distinct (dict_keys d) \<Longrightarrow> distinct (dict_keys (dict_set d k v))"
  by (simp add: dict_keys_dict_set)

lemma distinct_dict_del: "distinct (dict_keys d) \<Longrightarrow> distinct (dict_keys (dict_del d k))"
  by (simp add: dict_keys_def dict_del_def distinct_map_filter)

lemma in_dict_keys: "k \<in> set (dict_keys d) \<longleftrightarrow> map_of d k \<noteq> None"
  by (simp add: dict_keys_def map_of_eq_None_iff)

lemma memories_add:
  "memories (fst (add_memory enc mid now s uid cont ty md imp)) =
     dict_set (memories s) mid
       \<lparr>mem_id = mid, user_id = uid, content = cont, mem_type = ty,
        metadata = (case md of None \<Rightarrow> [] | Some d \<Rightarrow> d),
        embedding = Some (enc cont), created_at = now, importance = imp\<rparr>"
  by (simp add: add_memory_def Let_def save_store_def)

lemma user_memories_add:
  "map_of (user_memories (fst (add_memory enc mid now s uid cont ty md imp))) =
     (map_of (user_memories s))(uid \<mapsto> user_ids s uid @ [mid])"
  by (auto simp: add_memory_def Let_def save_store_def user_ids_def map_of_dict_set fun_eq_iff)

lemma index_add:
  "index (fst (add_memory enc mid now s uid cont ty md imp)) = index s @ [normalize_L2 (enc cont)]"
  by (simp add: add_memory_def Let_def save_store_def)

lemma index_update: "index (update_memory_importance s mid imp) = index s"
  by (simp add: update_memory_importance_def save_store_def split: option.splits)

lemma index_delete: "index (delete_memory s mid uid) = index s"
  by (simp add: delete_memory_def save_store_def)

lemma distinct_user_keys_add:
  "distinct (dict_keys (user_memories s)) \<Longrightarrow>
   distinct (dict_keys (user_memories (fst (add_memory enc mid now s uid cont ty md imp))))"
  by (simp add: add_memory_def Let_def save_store_def distinct_dict_set)


lemma consistentD1:
  "store_consistent s \<Longrightarrow> map_of (user_memories s) u = Some ids \<Longrightarrow> i \<in> set ids \<Longrightarrow>
   \<exists>m. map_of (memories s) i = Some m \<and> user_id m = u"
  unfolding store_consistent_def by blast

lemma consistentD2:
  "store_consistent s \<Longrightarrow> map_of (memories s) i = Some m \<Longrightarrow>
   \<exists>ids. map_of (user_memories s) (user_id m) = Some ids \<and> i \<in> set ids"
  unfolding store_consistent_def by blast

lemma store_inv_new: "store_inv (new_store no_files)"
  by (simp add: store_inv_def store_consistent_def new_store_def no_files_def load_store_def dict_keys_def)

lemma user_ids_eq: "map_of (user_memories s) u = Some ids \<Longrightarrow> user_ids s u = ids"
  by (simp add: user_ids_def)

lemma user_ids_in: "i \<in> set (user_ids s u) \<Longrightarrow> \<exists>ids. map_of (user_memories s) u = Some ids \<and> i \<in> set ids"
  by (cases "map_of (user_memories s) u") (auto simp: user_ids_def)


lemma consistent_add:
  assumes c: "store_consistent s" and none: "map_of (memories s) mid = None"
  shows "store_consistent (fst (add_memory enc mid now s uid cont ty md imp))"
proof -
  let ?M = "\<lparr>mem_id = mid, user_id = uid, content = cont, mem_type = ty,
        metadata = (case md of None \<Rightarrow> [] | Some d \<Rightarrow> d),
        embedding = Some (enc cont), created_at = now, importance = imp\<rparr>"
  let ?um = "(map_of (user_memories s))(uid \<mapsto> user_ids s uid @ [mid])"
  let ?ms = "(map_of (memories s))(mid \<mapsto> ?M)"
  have a: "\<exists>m. ?ms i = Some m \<and> user_id m = u" if h: "?um u = Some ids" "i \<in> set ids" for u ids i
  proof (cases "i = mid")
    case True
    have "u = uid"
    proof (rule ccontr)
      assume "u \<noteq> uid"
      then have "map_of (user_memories s) u = Some ids" using h(1) by simp
      then obtain m where "map_of (memories s) i = Some m" using c h(2) unfolding store_consistent_def by blast
      then show False using none True by simp
    qed
    then show ?thesis using True by simp
  next
    case False
    show ?thesis
    proof (cases "u = uid")
      case True
      then have "ids = user_ids s uid @ [mid]" using h(1) by simp
      then have "i \<in> set (user_ids s uid)" using h(2) False by simp
      then obtain ids0 where "map_of (user_memories s) uid = Some ids0" "i \<in> set ids0"
        using user_ids_in by blast
      then obtain m where "map_of (memories s) i = Some m" "user_id m = uid"
        using c unfolding store_consistent_def by blast
      then show ?thesis using False True by simp
    next
      case u: False
      then have "map_of (user_memories s) u = Some ids" using h(1) by simp
      then obtain m where "map_of (memories s) i = Some m" "user_id m = u"
        using c h(2) unfolding store_consistent_def by blast
      then show ?thesis using False by simp
    qed
  qed
  have b: "\<exists>ids. ?um (user_id m) = Some ids \<and> i \<in> set ids" if h: "?ms i = Some m" for i m
  proof (cases "i = mid")
    case True
    then have "m = ?M" using h by simp
    then have "user_id m = uid" by simp
    then show ?thesis using True by simp
  next
    case False
    then have "map_of (memories s) i = Some m" using h by simp
    then obtain ids where ids: "map_of (user_memories s) (user_id m) = Some ids" "i \<in> set ids"
      using c unfolding store_consistent_def by blast
    show ?thesis
    proof (cases "user_id m = uid")
      case True
      then have "user_ids s uid = ids" using ids(1) by (simp add: user_ids_def)
      then show ?thesis using True ids(2) by simp
    next
      case False
      then show ?thesis using ids by simp
    qed
  qed
  show ?thesis
    unfolding store_consistent_def memories_add user_memories_add map_of_dict_set
  proof (intro conjI allI impI)
    fix u ids i
    assume "?um u = Some ids \<and> i \<in> set ids"
    then have "?um u = Some ids" and "i \<in> set ids" by blast+
    then show "\<exists>m. ?ms i = Some m \<and> user_id m = u" by (rule a)
  next
    fix i m
    assume "?ms i = Some m"
    then show "\<exists>ids. ?um (user_id m) = Some ids \<and> i \<in> set ids" by (rule b)
  qed
qed

lemma store_inv_add:
  assumes "store_inv s" and "mid \<notin> set (dict_keys (memories s))"
  shows "store_inv (fst (add_memory enc mid now s uid cont ty md imp))"
proof -
  let ?s' = "fst (add_memory enc mid now s uid cont ty md imp)"
  have sc: "store_consistent s" and dm: "distinct (dict_keys (memories s))"
    and du: "distinct (dict_keys (user_memories s))"
    and di: "\<And>u ids. map_of (user_memories s) u = Some ids \<Longrightarrow> distinct ids"
    and mi: "\<And>i m. map_of (memories s) i = Some m \<Longrightarrow> mem_id m = i"
    using assms(1) unfolding store_inv_def by blast+
  have none: "map_of (memories s) mid = None"
    using assms(2) by (simp add: in_dict_keys)
  have notin: "mid \<notin> set ids" if h: "map_of (user_memories s) u = Some ids" for u ids
  proof
    assume "mid \<in> set ids"
    from consistentD1[OF sc h this] show False using none by simp
  qed
  have c: "store_consistent ?s'"
    using sc none by (rule consistent_add)
  have d1: "distinct (dict_keys (memories ?s'))"
    using dm by (simp add: memories_add distinct_dict_set)
  have d2: "distinct (dict_keys (user_memories ?s'))"
    using du by (rule distinct_user_keys_add)
  have d3: "distinct ids" if h: "map_of (user_memories ?s') u = Some ids" for u ids
  proof (cases "u = uid")
    case True
    then have e: "ids = user_ids s uid @ [mid]" using h by (simp add: user_memories_add)
    have "distinct (user_ids s uid) \<and> mid \<notin> set (user_ids s uid)"
    proof (cases "map_of (user_memories s) uid")
      case None
      then show ?thesis by (simp add: user_ids_def)
    next
      case (Some ids0)
      then show ?thesis using di[OF Some] notin[OF Some] by (simp add: user_ids_def)
    qed
    then show ?thesis using e by simp
  next
    case False
    then have "map_of (user_memories s) u = Some ids" using h by (simp add: user_memories_add)
    then show ?thesis by (rule di)
  qed
  have d4: "mem_id m = i" if h: "map_of (memories ?s') i = Some m" for i m
  proof (cases "i = mid")
    case True
    then show ?thesis using h by (auto simp: memories_add map_of_dict_set)
  next
    case False
    then have "map_of (memories s) i = Some m" using h by (simp add: memories_add map_of_dict_set)
    then show ?thesis by (rule mi)
  qed
  show ?thesis unfolding store_inv_def
    by (intro conjI allI impI) (fact c d1 d2, fact d1, fact d2, erule d3, erule d4)
qed

lemma store_invD:
  assumes "store_inv s"
  shows "store_consistent s" and "distinct (dict_keys (memories s))"
    and "distinct (dict_keys (user_memories s))"
    and "\<And>u ids. map_of (user_memories s) u = Some ids \<Longrightarrow> distinct ids"
    and "\<And>i m. map_of (memories s) i = Some m \<Longrightarrow> mem_id m = i"
  using assms unfolding store_inv_def by blast+

lemma store_invI:
  assumes "store_consistent s" and "distinct (dict_keys (memories s))"
    and "distinct (dict_keys (user_memories s))"
    and "\<And>u ids. map_of (user_memories s) u = Some ids \<Longrightarrow> distinct ids"
    and "\<And>i m. map_of (memories s) i = Some m \<Longrightarrow> mem_id m = i"
  shows "store_inv s"
  unfolding store_inv_def using assms by blast

lemma memories_update:
  "map_of (memories s) mid = Some m \<Longrightarrow>
   memories (update_memory_importance s mid imp) = dict_set (memories s) mid (m\<lparr>importance := imp\<rparr>)"
  by (simp add: update_memory_importance_def save_store_def)

lemma user_memories_update: "user_memories (update_memory_importance s mid imp) = user_memories s"
  by (simp add: update_memory_importance_def save_store_def split: option.splits)

lemma update_absent: "map_of (memories s) mid = None \<Longrightarrow> update_memory_importance s mid imp = s"
  by (simp add: update_memory_importance_def)

lemma store_inv_update:
  assumes inv: "store_inv s"
  shows "store_inv (update_memory_importance s mid imp)"
proof (cases "map_of (memories s) mid")
  case None
  then show ?thesis using inv by (simp add: update_absent)
next
  case (Some m0)
  let ?s' = "update_memory_importance s mid imp"
  note D = store_invD[OF inv]
  have mem: "map_of (memories ?s') = (map_of (memories s))(mid \<mapsto> m0\<lparr>importance := imp\<rparr>)"
    by (simp add: memories_update[OF Some] map_of_dict_set)
  have um: "user_memories ?s' = user_memories s" by (rule user_memories_update)
  have c: "store_consistent ?s'"
    unfolding store_consistent_def mem um
  proof (intro conjI allI impI)
    fix u ids i
    assume "map_of (user_memories s) u = Some ids \<and> i \<in> set ids"
    then have h: "map_of (user_memories s) u = Some ids" "i \<in> set ids" by blast+
    from consistentD1[OF D(1) h] obtain m where m: "map_of (memories s) i = Some m" "user_id m = u"
      by blast
    show "\<exists>m. ((map_of (memories s))(mid \<mapsto> m0\<lparr>importance := imp\<rparr>)) i = Some m \<and> user_id m = u"
    proof (cases "i = mid")
      case True
      then have "m = m0" using m(1) Some by simp
      then show ?thesis using True m(2) by simp
    next
      case False
      then show ?thesis using m by simp
    qed
  next
    fix i m
    assume a: "((map_of (memories s))(mid \<mapsto> m0\<lparr>importance := imp\<rparr>)) i = Some m"
    show "\<exists>ids. map_of (user_memories s) (user_id m) = Some ids \<and> i \<in> set ids"
    proof (cases "i = mid")
      case True
      then have "user_id m = user_id m0" using a by auto
      then show ?thesis using consistentD2[OF D(1) Some] True by simp
    next
      case False
      then have "map_of (memories s) i = Some m" using a by simp
      then show ?thesis by (rule consistentD2[OF D(1)])
    qed
  qed
  have d1: "distinct (dict_keys (memories ?s'))"
    using D(2) by (simp add: memories_update[OF Some] distinct_dict_set)
  have d2: "distinct (dict_keys (user_memories ?s'))"
    using D(3) by (simp add: um)
  have d3: "distinct ids" if "map_of (user_memories ?s') u = Some ids" for u ids
    using that D(4) unfolding um by blast
  have d4: "mem_id m = i" if h: "map_of (memories ?s') i = Some m" for i m
  proof (cases "i = mid")
    case True
    then have "m = m0\<lparr>importance := imp\<rparr>" using h mem by simp
    then show ?thesis using D(5)[OF Some] True by simp
  next
    case False
    then have "map_of (memories s) i = Some m" using h mem by simp
    then show ?thesis by (rule D(5))
  qed
  show ?thesis by (rule store_invI) (fact c, fact d1, fact d2, erule d3, erule d4)
qed

lemma delete_noop: "\<not> delete_guard s mid uid \<Longrightarrow> delete_memory s mid uid = s"
  by (auto simp: delete_memory_def delete_guard_def)

lemma memories_delete:
  "delete_guard s mid uid \<Longrightarrow> memories (delete_memory s mid uid) = dict_del (memories s) mid"
  by (simp add: delete_memory_def delete_guard_def save_store_def)

lemma user_memories_delete:
  "delete_guard s mid uid \<Longrightarrow>
   user_memories (delete_memory s mid uid) =
     dict_set (user_memories s) uid (remove1 mid (user_ids s uid))"
  by (simp add: delete_memory_def delete_guard_def save_store_def)

lemma store_inv_delete:
  assumes inv: "store_inv s"
  shows "store_inv (delete_memory s mid uid)"
proof (cases "delete_guard s mid uid")
  case False
  then show ?thesis using inv by (simp add: delete_noop)
next
  case True
  let ?s' = "delete_memory s mid uid"
  note D = store_invD[OF inv]
  have mem: "map_of (memories ?s') = (map_of (memories s))(mid := None)"
    by (simp add: memories_delete[OF True] map_of_dict_del)
  have um: "map_of (user_memories ?s') = (map_of (user_memories s))(uid \<mapsto> remove1 mid (user_ids s uid))"
    by (simp add: user_memories_delete[OF True] map_of_dict_set)
  have "mid \<in> set (user_ids s uid)" using True by (simp add: delete_guard_def)
  then obtain ids0 where ids0: "map_of (user_memories s) uid = Some ids0" "mid \<in> set ids0"
    using user_ids_in by blast
  have uids: "user_ids s uid = ids0" using ids0(1) by (rule user_ids_eq)
  have dist0: "distinct ids0" using ids0(1) by (rule D(4))
  from consistentD1[OF D(1) ids0] obtain mm where mm: "map_of (memories s) mid = Some mm" "user_id mm = uid"
    by blast
  have c: "store_consistent ?s'"
    unfolding store_consistent_def mem um
  proof (intro conjI allI impI)
    fix u ids i
    assume "((map_of (user_memories s))(uid \<mapsto> remove1 mid (user_ids s uid))) u = Some ids \<and> i \<in> set ids"
    then have h: "((map_of (user_memories s))(uid \<mapsto> remove1 mid (user_ids s uid))) u = Some ids"
      and i: "i \<in> set ids" by blast+
    have "map_of (user_memories s) u \<noteq> None \<and> i \<in> set (user_ids s u) \<and> i \<noteq> mid"
    proof (cases "u = uid")
      case True
      then have "ids = remove1 mid ids0" using h uids by simp
      then have "i \<in> set ids0" "i \<noteq> mid" using i dist0 by auto
      then show ?thesis using True ids0(1) uids by simp
    next
      case False
      then have hu: "map_of (user_memories s) u = Some ids" using h by simp
      have "i \<noteq> mid"
      proof
        assume "i = mid"
        then have "mid \<in> set ids" using i by simp
        from consistentD1[OF D(1) hu this] show False using mm False by simp
      qed
      then show ?thesis using hu i by (simp add: user_ids_def)
    qed
    then obtain ids1 where ids1: "map_of (user_memories s) u = Some ids1" "i \<in> set ids1" and ne: "i \<noteq> mid"
      using user_ids_in by blast
    from consistentD1[OF D(1) ids1] obtain m where "map_of (memories s) i = Some m" "user_id m = u"
      by blast
    then show "\<exists>m. ((map_of (memories s))(mid := None)) i = Some m \<and> user_id m = u"
      using ne by simp
  next
    fix i m
    assume a: "((map_of (memories s))(mid := None)) i = Some m"
    then have ne: "i \<noteq> mid" by (auto split: if_splits)
    then have "map_of (memories s) i = Some m" using a by simp
    from consistentD2[OF D(1) this] obtain ids where ids: "map_of (user_memories s) (user_id m) = Some ids" "i \<in> set ids"
      by blast
    show "\<exists>ids. ((map_of (user_memories s))(uid \<mapsto> remove1 mid (user_ids s uid))) (user_id m) = Some ids \<and> i \<in> set ids"
    proof (cases "user_id m = uid")
      case True
      then have "ids = ids0" using ids(1) ids0(1) by simp
      then have "i \<in> set (remove1 mid (user_ids s uid))" using ids(2) ne uids by simp
      then show ?thesis using True by simp
    next
      case False
      then show ?thesis using ids by simp
    qed
  qed
  have d1: "distinct (dict_keys (memories ?s'))"
    using D(2) by (simp add: memories_delete[OF True] distinct_dict_del)
  have d2: "distinct (dict_keys (user_memories ?s'))"
    using D(3) by (simp add: user_memories_delete[OF True] distinct_dict_set)
  have d3: "distinct ids" if h: "map_of (user_memories ?s') u = Some ids" for u ids
  proof (cases "u = uid")
    case True
    then have "ids = remove1 mid ids0" using h um uids by simp
    then show ?thesis using dist0 by simp
  next
    case False
    then have "map_of (user_memories s) u = Some ids" using h um by simp
    then show ?thesis by (rule D(4))
  qed
  have d4: "mem_id m = i" if h: "map_of (memories ?s') i = Some m" for i m
  proof -
    have "map_of (memories s) i = Some m" using h mem by (auto split: if_splits)
    then show ?thesis by (rule D(5))
  qed
  show ?thesis by (rule store_invI) (fact c, fact d1, fact d2, erule d3, erule d4)
qed

lemma store_inv_apply_op:
  "store_inv s \<Longrightarrow> is_fresh s x \<Longrightarrow> store_inv (apply_op enc s x)"
  by (cases x) (simp_all add: store_inv_add store_inv_update store_inv_delete)

lemma store_inv_run:
  "store_inv s \<Longrightarrow> fresh_run enc s ops \<Longrightarrow> store_inv (run enc s ops)"
  unfolding run_def
  by (induction ops arbitrary: s) (simp_all add: store_inv_apply_op)

lemma index_apply_op:
  "length (index (apply_op enc s x)) = length (index s) + (if is_add x then 1 else 0)"
  by (cases x) (simp_all add: index_add index_update index_delete)

lemma index_run:
  "length (index (run enc s ops)) = length (index s) + length (filter is_add ops)"
  unfolding run_def
  by (induction ops arbitrary: s) (simp_all add: index_apply_op)

lemma index_new_store: "index (new_store no_files) = []"
  by (simp add: new_store_def no_files_def load_store_def)

lemma dict_set_fresh: "k \<notin> set (dict_keys d) \<Longrightarrow> dict_set d k v = d @ [(k, v)]"
  by (induction d) (auto simp: dict_keys_def)

lemma fold_dict_set:
  "distinct (dict_keys (ys @ xs)) \<Longrightarrow> fold (\<lambda>(k, m) d. dict_set d k m) xs ys = ys @ xs"
proof (induction xs arbitrary: ys)
  case Nil
  then show ?case by simp
next
  case (Cons x xs)
  obtain k v where x: "x = (k, v)" by (cases x)
  have k: "k \<notin> set (dict_keys ys)" using Cons.prems x by (auto simp: dict_keys_def)
  have d: "distinct (dict_keys ((ys @ [(k, v)]) @ xs))" using Cons.prems x by (simp add: dict_keys_def)
  show ?case using Cons.IH[OF d] by (simp add: x dict_set_fresh[OF k])
qed

lemma new_store_of_saved:
  assumes "distinct (dict_keys (memories s))"
  shows "memories (new_store (disk (save_store s))) = memories s"
    and "user_memories (new_store (disk (save_store s))) = user_memories s"
    and "index (new_store (disk (save_store s))) = index s"
  using assms fold_dict_set[of "[]" "memories s"]
  by (simp_all add: new_store_def load_store_def save_store_def)

lemma save_store_fields:
  "memories (save_store s) = memories s" "user_memories (save_store s) = user_memories s"
  "index (save_store s) = index s" "io_log (save_store s) = io_log s @ [WriteIndex, WriteMemories]"
  "disk (save_store s) = \<lparr>index_file = Some (index s), memories_file = Some (memories s, user_memories s)\<rparr>"
  "save_store (save_store s) = (save_store s)\<lparr>io_log := io_log s @ [WriteIndex, WriteMemories, WriteIndex, WriteMemories]\<rparr>"
  by (simp_all add: save_store_def)

lemma apply_op_saved:
  assumes "takes_effect s x"
  shows "\<exists>t. apply_op enc s x = save_store t \<and> io_log t = io_log s \<and>
             (distinct (dict_keys (memories s)) \<longrightarrow> distinct (dict_keys (memories t)))"
proof (cases x)
  case (Add mid now uid cont ty md imp)
  show ?thesis unfolding Add apply_op.simps add_memory_def Let_def fst_conv
    by (rule exI, intro conjI, rule refl) (simp_all add: distinct_dict_set)
next
  case (UpdateImportance mid imp)
  then obtain m where m: "map_of (memories s) mid = Some m" using assms by auto
  show ?thesis unfolding UpdateImportance apply_op.simps update_memory_importance_def m option.case
    by (rule exI, intro conjI, rule refl) (simp_all add: distinct_dict_set)
next
  case (Delete mid uid)
  then have g: "mid \<in> set (dict_keys (memories s)) \<and> mid \<in> set (user_ids s uid)"
    using assms by (simp add: delete_guard_def)
  show ?thesis unfolding Delete apply_op.simps delete_memory_def if_P[OF g]
    by (rule exI, intro conjI, rule refl) (simp_all add: distinct_dict_del)
qed

subsection \<open>Claims about the write operations\<close>

lemmas store_eval =
  add_memory_def update_memory_importance_def delete_memory_def save_store_def new_store_def
  load_store_def no_files_def user_ids_def dict_keys_def dict_del_def Let_def run_def
  toy_encoder_def normalize_L2_def delete_guard_def

text \<open>
  C2. \<open>delete_memory\<close> with an id that is a key of \<open>memories\<close> and in the user's id
  list removes the entry from \<open>memories\<close> and the id from that user's list, leaves the
  other lists alone and writes the store to disk; it never changes the FAISS index. After
  any sequence of operations on a new store the index holds as many rows as there were
  \<open>add_memory\<close> calls, whatever was deleted.
\<close>

theorem delete_keeps_index:
  "(memory_id \<in> set (dict_keys (memories s)) \<and> memory_id \<in> set (user_ids s uid) \<longrightarrow>
      memories (delete_memory s memory_id uid) = dict_del (memories s) memory_id \<and>
      map_of (memories (delete_memory s memory_id uid)) memory_id = None \<and>
      user_ids (delete_memory s memory_id uid) uid = remove1 memory_id (user_ids s uid) \<and>
      (\<forall>u. u \<noteq> uid \<longrightarrow> user_ids (delete_memory s memory_id uid) u = user_ids s u) \<and>
      disk (delete_memory s memory_id uid) =
        \<lparr>index_file = Some (index s),
         memories_file = Some (memories (delete_memory s memory_id uid),
                               user_memories (delete_memory s memory_id uid))\<rparr>) \<and>
   index (delete_memory s memory_id uid) = index s \<and>
   length (index (run enc (new_store no_files) ops)) = length (filter is_add ops)"
proof (intro conjI impI)
  assume "memory_id \<in> set (dict_keys (memories s)) \<and> memory_id \<in> set (user_ids s uid)"
  then have g: "delete_guard s memory_id uid" by (simp add: delete_guard_def)
  show "memories (delete_memory s memory_id uid) = dict_del (memories s) memory_id"
    by (rule memories_delete[OF g])
  show "map_of (memories (delete_memory s memory_id uid)) memory_id = None"
    by (simp add: memories_delete[OF g] map_of_dict_del)
  show "user_ids (delete_memory s memory_id uid) uid = remove1 memory_id (user_ids s uid)"
    by (simp add: user_ids_def[of "delete_memory s memory_id uid"] user_memories_delete[OF g] map_of_dict_set)
  show "\<forall>u. u \<noteq> uid \<longrightarrow> user_ids (delete_memory s memory_id uid) u = user_ids s u"
    by (simp add: user_ids_def user_memories_delete[OF g] map_of_dict_set)
  show "disk (delete_memory s memory_id uid) =
        \<lparr>index_file = Some (index s),
         memories_file = Some (memories (delete_memory s memory_id uid),
                               user_memories (delete_memory s memory_id uid))\<rparr>"
    using g by (simp add: delete_memory_def delete_guard_def save_store_def)
next
  show "index (delete_memory s memory_id uid) = index s" by (rule index_delete)
next
  show "length (index (run enc (new_store no_files) ops)) = length (filter is_add ops)"
    by (simp add: index_run index_new_store)
qed

theorem delete_keeps_index_witness:
  "''m1'' \<in> set (dict_keys (memories (fst (add_memory toy_encoder ''m1'' 10 (new_store no_files)
        ''alice'' ''hello'' ''conversation'' None (1 / 2))))) \<and>
   ''m1'' \<in> set (user_ids (fst (add_memory toy_encoder ''m1'' 10 (new_store no_files)
        ''alice'' ''hello'' ''conversation'' None (1 / 2))) ''alice'') \<and>
   memories (delete_memory (fst (add_memory toy_encoder ''m1'' 10 (new_store no_files)
        ''alice'' ''hello'' ''conversation'' None (1 / 2))) ''m1'' ''alice'') = [] \<and>
   length (index (delete_memory (fst (add_memory toy_encoder ''m1'' 10 (new_store no_files)
        ''alice'' ''hello'' ''conversation'' None (1 / 2))) ''m1'' ''alice'')) = 1 \<and>
   length (index (run toy_encoder (new_store no_files)
        [Add ''m1'' 10 ''alice'' ''hello'' ''conversation'' None (1 / 2), Delete ''m1'' ''alice''])) = 1"
  using delete_keeps_index[of "''m1''"
      "fst (add_memory toy_encoder ''m1'' 10 (new_store no_files) ''alice'' ''hello'' ''conversation'' None (1 / 2))"
      "''alice''" toy_encoder
      "[Add ''m1'' 10 ''alice'' ''hello'' ''conversation'' None (1 / 2), Delete ''m1'' ''alice'']"]
  by (simp add: store_eval)

text \<open>
  C9. In every state reached from an empty store by \<open>add_memory\<close>,
  \<open>update_memory_importance\<close> and \<open>delete_memory\<close> calls (each new uuid being unused),
  every id in a user's list is a key of \<open>memories\<close> whose entry has that \<open>user_id\<close>, and
  every key of \<open>memories\<close> is in the list of its entry's user; one more operation keeps it so.
\<close>

theorem store_consistency_invariant:
  assumes "fresh_run enc (new_store no_files) ops"
  shows "store_consistent (run enc (new_store no_files) ops) \<and>
         (\<forall>x. is_fresh (run enc (new_store no_files) ops) x \<longrightarrow>
              store_consistent (apply_op enc (run enc (new_store no_files) ops) x))"
proof -
  have inv: "store_inv (run enc (new_store no_files) ops)"
    using store_inv_new assms by (rule store_inv_run)
  then have "store_consistent (run enc (new_store no_files) ops)" by (rule store_invD(1))
  moreover have "store_consistent (apply_op enc (run enc (new_store no_files) ops) x)"
    if "is_fresh (run enc (new_store no_files) ops) x" for x
    using store_inv_apply_op[OF inv that] by (rule store_invD(1))
  ultimately show ?thesis by blast
qed

theorem store_consistency_invariant_witness:
  "fresh_run toy_encoder (new_store no_files)
     [Add ''m1'' 10 ''alice'' ''hello'' ''conversation'' None (1 / 2),
      Add ''m2'' 20 ''bob'' ''a plan'' ''insight'' None (7 / 10),
      UpdateImportance ''m1'' (9 / 10),
      Delete ''m1'' ''alice''] \<and>
   store_consistent (run toy_encoder (new_store no_files)
     [Add ''m1'' 10 ''alice'' ''hello'' ''conversation'' None (1 / 2),
      Add ''m2'' 20 ''bob'' ''a plan'' ''insight'' None (7 / 10),
      UpdateImportance ''m1'' (9 / 10),
      Delete ''m1'' ''alice''])"
proof -
  have h: "fresh_run toy_encoder (new_store no_files)
     [Add ''m1'' 10 ''alice'' ''hello'' ''conversation'' None (1 / 2),
      Add ''m2'' 20 ''bob'' ''a plan'' ''insight'' None (7 / 10),
      UpdateImportance ''m1'' (9 / 10),
      Delete ''m1'' ''alice'']"
    by (simp add: store_eval)
  from store_consistency_invariant[OF h] h show ?thesis by blast
qed

text \<open>
  C4, as stated: every write operation reads \<open>memories.json\<close> back. It does not:
  \<open>add_memory\<close> on a new store opens the two files for writing only; the only call of
  \<open>_load_store\<close> is in the constructor.
\<close>

theorem write_reloads_counterexample:
  "ReadMemories \<notin> set (io_log (fst (add_memory toy_encoder ''m1'' 10 (new_store no_files)
       ''alice'' ''hello'' ''conversation'' None (1 / 2)))) \<and>
   io_log (fst (add_memory toy_encoder ''m1'' 10 (new_store no_files)
       ''alice'' ''hello'' ''conversation'' None (1 / 2))) = [WriteIndex, WriteMemories]"
  by (simp add: store_eval)

text \<open>
  C4, amended. A write operation that takes effect (\<open>add_memory\<close>,
  \<open>update_memory_importance\<close> of an existing id, \<open>delete_memory\<close> of a present id) saves:
  it writes the index file and \<open>memories.json\<close> and reads nothing, the JSON file then
  holds the \<open>memories\<close> and \<open>user_memories\<close> that are in memory, and a store constructed
  from the files afterwards loads these same dicts.
\<close>

theorem writes_save_without_reload:
  assumes "takes_effect s x" and "distinct (dict_keys (memories s))"
  shows "io_log (apply_op enc s x) = io_log s @ [WriteIndex, WriteMemories] \<and>
         memories_file (disk (apply_op enc s x)) =
           Some (memories (apply_op enc s x), user_memories (apply_op enc s x)) \<and>
         index_file (disk (apply_op enc s x)) = Some (index (apply_op enc s x)) \<and>
         memories (new_store (disk (apply_op enc s x))) = memories (apply_op enc s x) \<and>
         user_memories (new_store (disk (apply_op enc s x))) = user_memories (apply_op enc s x)"
proof -
  from apply_op_saved[OF assms(1)] obtain t where
    t: "apply_op enc s x = save_store t" "io_log t = io_log s"
       "distinct (dict_keys (memories s)) \<longrightarrow> distinct (dict_keys (memories t))"
    by blast
  have d: "distinct (dict_keys (memories t))" using t(3) assms(2) by blast
  have a: "memories (new_store (disk (save_store t))) = memories (save_store t)"
    using new_store_of_saved(1)[OF d] by (simp add: save_store_fields(1))
  have b: "user_memories (new_store (disk (save_store t))) = user_memories (save_store t)"
    using new_store_of_saved(2)[OF d] by (simp add: save_store_fields(2))
  have c: "memories_file (disk (save_store t)) = Some (memories (save_store t), user_memories (save_store t))"
    and c': "index_file (disk (save_store t)) = Some (index (save_store t))"
    by (simp_all add: save_store_def)
  have l: "io_log (save_store t) = io_log s @ [WriteIndex, WriteMemories]"
    by (simp add: save_store_fields(4) t(2))
  show ?thesis
    unfolding t(1) using a b c c' l by blast
qed

theorem writes_save_without_reload_witness:
  "takes_effect (new_store no_files) (Add ''m1'' 10 ''alice'' ''hello'' ''conversation'' None (1 / 2)) \<and>
   distinct (dict_keys (memories (new_store no_files))) \<and>
   io_log (apply_op toy_encoder (new_store no_files)
             (Add ''m1'' 10 ''alice'' ''hello'' ''conversation'' None (1 / 2))) =
     [WriteIndex, WriteMemories] \<and>
   dict_keys (memories (new_store (disk (apply_op toy_encoder (new_store no_files)
             (Add ''m1'' 10 ''alice'' ''hello'' ''conversation'' None (1 / 2)))))) = [''m1'']"
  using writes_save_without_reload[of "new_store no_files"
      "Add ''m1'' 10 ''alice'' ''hello'' ''conversation'' None (1 / 2)" toy_encoder]
  by (simp add: store_eval)

subsection \<open>get_user_context\<close>

lemma mset_sort_desc: "mset (sort_desc f xs) = mset xs"
  by (simp add: sort_desc_def)

lemma set_sort_desc: "set (sort_desc f xs) = set xs"
  by (simp add: sort_desc_def)

lemma sorted_sort_desc: "sorted_wrt (\<lambda>a b. f b \<le> f a) (sort_desc f xs)"
proof -
  have "sorted (map f (sort_key f (rev xs)))" by (rule sorted_sort_key)
  then have "sorted_wrt (\<lambda>a b. f a \<le> f b) (sort_key f (rev xs))"
    by (simp add: sorted_map)
  then show ?thesis
    by (simp add: sort_desc_def sorted_wrt_rev)
qed

lemma recency_key_le:
  "recency_key b \<le> recency_key a \<longleftrightarrow>
     created_at b < created_at a \<or> (created_at b = created_at a \<and> importance b \<le> importance a)"
  by (auto simp: recency_key_def less_eq_prod_def)

lemma set_py_slice_to: "set (py_slice_to xs n) \<subseteq> set xs"
  by (auto simp: py_slice_to_def dest: in_set_takeD)

lemma owned_memories_set:
  "m \<in> set (owned_memories s ids) \<longleftrightarrow> (\<exists>i \<in> set ids. map_of (memories s) i = Some m)"
  by (force simp: owned_memories_def List.map_filter_def)

lemma get_user_context_subset:
  "map_of (user_memories s) uid = Some ids \<Longrightarrow>
   set (get_user_context s uid cw) \<subseteq> set (owned_memories s ids)"
  using set_py_slice_to[of "sort_desc recency_key (owned_memories s ids)" cw]
  by (simp add: get_user_context_def set_sort_desc)

text \<open>
  C5. For a user unknown to \<open>user_memories\<close> the result is empty. For a known user it
  is the first \<open>context_window\<close> entries of a rearrangement of that user's memories (the
  entries of \<open>memories\<close> under the ids of the user's list) in which every entry is
  followed only by entries with an earlier \<open>created_at\<close>, or the same \<open>created_at\<close> and an
  importance not above its own. In a consistent store every entry of the result has the
  requested \<open>user_id\<close>.
\<close>

theorem get_user_context_ranking:
  "(map_of (user_memories s) uid = None \<longrightarrow> get_user_context s uid context_window = []) \<and>
   (\<forall>ids. map_of (user_memories s) uid = Some ids \<and> 0 \<le> context_window \<longrightarrow>
      (\<exists>ranked. mset ranked = mset (owned_memories s ids) \<and>
         sorted_wrt (\<lambda>a b. created_at b < created_at a \<or>
                              (created_at b = created_at a \<and> importance b \<le> importance a)) ranked \<and>
         get_user_context s uid context_window = take (nat context_window) ranked)) \<and>
   (store_consistent s \<longrightarrow> (\<forall>m \<in> set (get_user_context s uid context_window). user_id m = uid))"
proof (intro conjI allI impI ballI)
  assume "map_of (user_memories s) uid = None"
  then show "get_user_context s uid context_window = []" by (simp add: get_user_context_def)
next
  fix ids
  assume "map_of (user_memories s) uid = Some ids \<and> 0 \<le> context_window"
  then have h: "map_of (user_memories s) uid = Some ids" and cw: "0 \<le> context_window" by blast+
  let ?r = "sort_desc recency_key (owned_memories s ids)"
  have 1: "mset ?r = mset (owned_memories s ids)" by (rule mset_sort_desc)
  have "sorted_wrt (\<lambda>a b. recency_key b \<le> recency_key a) ?r" by (rule sorted_sort_desc)
  then have 2: "sorted_wrt (\<lambda>a b. created_at b < created_at a \<or>
                              (created_at b = created_at a \<and> importance b \<le> importance a)) ?r"
    by (simp add: recency_key_le)
  have 3: "get_user_context s uid context_window = take (nat context_window) ?r"
    using h cw by (simp add: get_user_context_def py_slice_to_def)
  show "\<exists>ranked. mset ranked = mset (owned_memories s ids) \<and>
         sorted_wrt (\<lambda>a b. created_at b < created_at a \<or>
                              (created_at b = created_at a \<and> importance b \<le> importance a)) ranked \<and>
         get_user_context s uid context_window = take (nat context_window) ranked"
    using 1 2 3 by blast
next
  fix m
  assume c: "store_consistent s" and m: "m \<in> set (get_user_context s uid context_window)"
  show "user_id m = uid"
  proof (cases "map_of (user_memories s) uid")
    case None
    then show ?thesis using m by (simp add: get_user_context_def)
  next
    case (Some ids)
    then have "m \<in> set (owned_memories s ids)" using m get_user_context_subset by blast
    then obtain i where i: "i \<in> set ids" "map_of (memories s) i = Some m"
      by (auto simp: owned_memories_set)
    from consistentD1[OF c Some i(1)] show ?thesis using i(2) by simp
  qed
qed

theorem get_user_context_ranking_witness:
  "map_of (user_memories (run toy_encoder (new_store no_files)
      [Add ''m1'' 10 ''alice'' ''hello'' ''conversation'' None (1 / 2),
       Add ''m2'' 30 ''alice'' ''goal'' ''goal_update'' None (9 / 10),
       Add ''m3'' 30 ''alice'' ''again'' ''conversation'' None (1 / 5),
       Add ''m4'' 20 ''bob'' ''other'' ''conversation'' None (1 / 2)])) ''alice''
     = Some [''m1'', ''m2'', ''m3''] \<and> (0::int) \<le> 2 \<and>
   store_consistent (run toy_encoder (new_store no_files)
      [Add ''m1'' 10 ''alice'' ''hello'' ''conversation'' None (1 / 2),
       Add ''m2'' 30 ''alice'' ''goal'' ''goal_update'' None (9 / 10),
       Add ''m3'' 30 ''alice'' ''again'' ''conversation'' None (1 / 5),
       Add ''m4'' 20 ''bob'' ''other'' ''conversation'' None (1 / 2)]) \<and>
   map mem_id (get_user_context (run toy_encoder (new_store no_files)
      [Add ''m1'' 10 ''alice'' ''hello'' ''conversation'' None (1 / 2),
       Add ''m2'' 30 ''alice'' ''goal'' ''goal_update'' None (9 / 10),
       Add ''m3'' 30 ''alice'' ''again'' ''conversation'' None (1 / 5),
       Add ''m4'' 20 ''bob'' ''other'' ''conversation'' None (1 / 2)]) ''alice'' 2)
     = [''m2'', ''m3''] \<and>
   map user_id (get_user_context (run toy_encoder (new_store no_files)
      [Add ''m1'' 10 ''alice'' ''hello'' ''conversation'' None (1 / 2),
       Add ''m2'' 30 ''alice'' ''goal'' ''goal_update'' None (9 / 10),
       Add ''m3'' 30 ''alice'' ''again'' ''conversation'' None (1 / 5),
       Add ''m4'' 20 ''bob'' ''other'' ''conversation'' None (1 / 2)]) ''alice'' 2)
     = [''alice'', ''alice'']"
proof -
  let ?ops = "[Add ''m1'' 10 ''alice'' ''hello'' ''conversation'' None (1 / 2),
       Add ''m2'' 30 ''alice'' ''goal'' ''goal_update'' None (9 / 10),
       Add ''m3'' 30 ''alice'' ''again'' ''conversation'' None (1 / 5),
       Add ''m4'' 20 ''bob'' ''other'' ''conversation'' None (1 / 2)]"
  let ?s = "run toy_encoder (new_store no_files) ?ops"
  have f: "fresh_run toy_encoder (new_store no_files) ?ops" by (simp add: store_eval)
  have c: "store_consistent ?s"
    using store_inv_run[OF store_inv_new f] by (rule store_invD(1))
  have u: "map_of (user_memories ?s) ''alice'' = Some [''m1'', ''m2'', ''m3'']"
    by (simp add: store_eval)
  have g: "map mem_id (get_user_context ?s ''alice'' 2) = [''m2'', ''m3'']"
    by (simp add: store_eval get_user_context_def owned_memories_def List.map_filter_def
        sort_desc_def recency_key_def py_slice_to_def less_eq_prod_def)
  from get_user_context_ranking[of ?s "''alice''" 2] c
  have a: "\<forall>m \<in> set (get_user_context ?s ''alice'' 2). user_id m = ''alice''" by blast
  have "length (get_user_context ?s ''alice'' 2) = 2" using g by (metis length_map length_Cons list.size(3) Suc_1 One_nat_def)
  then have "map user_id (get_user_context ?s ''alice'' 2) = [''alice'', ''alice'']"
    using a by (cases "get_user_context ?s ''alice'' 2"; simp) (metis length_0_conv length_Suc_conv list.simps(8,9) list.set_intros(1,2) Suc_inject)
  with c u g show ?thesis by simp
qed

subsection \<open>cleanup_old_memories\<close>

lemma length_dict_del:
  "distinct (dict_keys d) \<Longrightarrow> k \<in> set (dict_keys d) \<Longrightarrow> length (dict_del d k) + 1 = length d"
proof (induction d)
  case Nil
  then show ?case by (simp add: dict_keys_def)
next
  case (Cons kv d)
  show ?case
  proof (cases "fst kv = k")
    case True
    then have "k \<notin> set (dict_keys d)" using Cons.prems(1) by (simp add: dict_keys_def)
    then have "filter (\<lambda>kv. fst kv \<noteq> k) d = d" by (auto simp: dict_keys_def filter_id_conv)
    then show ?thesis using True by (simp add: dict_del_def)
  next
    case False
    then have "k \<in> set (dict_keys d)" "distinct (dict_keys d)"
      using Cons.prems by (auto simp: dict_keys_def)
    then have "length (dict_del d k) + 1 = length d" using Cons.IH by blast
    then show ?thesis using False by (simp add: dict_del_def)
  qed
qed

lemma map_of_entry:
  "distinct (dict_keys d) \<Longrightarrow> kv \<in> set d \<Longrightarrow> map_of d (fst kv) = Some (snd kv)"
  by (cases kv) (simp add: dict_keys_def)

lemma entry_is:
  assumes inv: "store_inv s" and m: "map_of (memories s) (mem_id m) = Some m"
    and kv: "kv \<in> set (memories s)"
  shows "fst kv \<noteq> mem_id m \<longleftrightarrow> snd kv \<noteq> m"
proof -
  have e: "map_of (memories s) (fst kv) = Some (snd kv)"
    using store_invD(2)[OF inv] kv by (rule map_of_entry)
  show ?thesis
  proof
    assume "fst kv \<noteq> mem_id m"
    then show "snd kv \<noteq> m" using store_invD(5)[OF inv e] by auto
  next
    assume "snd kv \<noteq> m"
    then show "fst kv \<noteq> mem_id m" using e m by auto
  qed
qed

lemma user_ids_delete:
  assumes "delete_guard s mid uid"
  shows "user_ids (delete_memory s mid uid) u =
           (if u = uid then remove1 mid (user_ids s uid) else user_ids s u)"
  by (simp add: user_ids_def[of "delete_memory s mid uid"] user_ids_def[of s u]
      user_memories_delete[OF assms] map_of_dict_set)

lemma user_ids_distinct: "store_inv s \<Longrightarrow> distinct (user_ids s u)"
  using store_invD(4)[of s u] by (cases "map_of (user_memories s) u") (simp_all add: user_ids_def)

lemma cleanup_loop_spec:
  assumes "store_inv s" and "distinct (map mem_id ms)"
    and "\<And>m. m \<in> set ms \<Longrightarrow> map_of (memories s) (mem_id m) = Some m \<and> mem_id m \<in> set (user_ids s uid)"
  shows "\<exists>s'. cleanup_loop s uid cutoff ms n = (s', n + length (filter (expendable cutoff) ms)) \<and>
      memories s' = filter (\<lambda>kv. \<not> (snd kv \<in> set ms \<and> expendable cutoff (snd kv))) (memories s) \<and>
      length (memories s') + length (filter (expendable cutoff) ms) = length (memories s) \<and>
      index s' = index s \<and>
      (\<forall>u. user_ids s' u =
            filter (\<lambda>i. \<not> (u = uid \<and> i \<in> mem_id ` {m \<in> set ms. expendable cutoff m})) (user_ids s u))"
  using assms
proof (induction ms arbitrary: s n)
  case Nil
  then show ?case by simp
next
  case (Cons m ms)
  have inv: "store_inv s" by (rule Cons.prems(1))
  have dist: "distinct (map mem_id ms)" and notin: "mem_id m \<notin> mem_id ` set ms"
    using Cons.prems(2) by simp_all
  have m: "map_of (memories s) (mem_id m) = Some m" and mu: "mem_id m \<in> set (user_ids s uid)"
    using Cons.prems(3)[of m] by simp_all
  have rest: "map_of (memories s) (mem_id m') = Some m' \<and> mem_id m' \<in> set (user_ids s uid)"
    if "m' \<in> set ms" for m'
    using Cons.prems(3)[of m'] that by simp
  show ?case
  proof (cases "expendable cutoff m")
    case False
    from Cons.IH[OF inv dist rest, of n] obtain s' where
      s': "cleanup_loop s uid cutoff ms n = (s', n + length (filter (expendable cutoff) ms))"
          "memories s' = filter (\<lambda>kv. \<not> (snd kv \<in> set ms \<and> expendable cutoff (snd kv))) (memories s)"
          "length (memories s') + length (filter (expendable cutoff) ms) = length (memories s)"
          "index s' = index s"
          "\<forall>u. user_ids s' u =
            filter (\<lambda>i. \<not> (u = uid \<and> i \<in> mem_id ` {m \<in> set ms. expendable cutoff m})) (user_ids s u)"
      by blast
    have p: "(snd kv \<in> set (m # ms) \<and> expendable cutoff (snd kv)) \<longleftrightarrow>
             (snd kv \<in> set ms \<and> expendable cutoff (snd kv))" for kv
      using False by auto
    have q: "{m' \<in> set (m # ms). expendable cutoff m'} = {m' \<in> set ms. expendable cutoff m'}"
      using False by auto
    show ?thesis
      unfolding p q using s' False by simp
  next
    case True
    let ?s1 = "delete_memory s (mem_id m) uid"
    have g: "delete_guard s (mem_id m) uid"
      using m mu by (simp add: delete_guard_def in_dict_keys)
    have inv1: "store_inv ?s1" using inv by (rule store_inv_delete)
    have mem1: "memories ?s1 = dict_del (memories s) (mem_id m)" by (rule memories_delete[OF g])
    have rest1: "map_of (memories ?s1) (mem_id m') = Some m' \<and> mem_id m' \<in> set (user_ids ?s1 uid)"
      if h: "m' \<in> set ms" for m'
    proof -
      have ne: "mem_id m' \<noteq> mem_id m" using notin h by (metis image_eqI)
      have "map_of (memories ?s1) (mem_id m') = Some m'"
        using rest[OF h] ne by (simp add: mem1 map_of_dict_del)
      moreover have "mem_id m' \<in> set (user_ids ?s1 uid)"
        using rest[OF h] ne by (simp add: user_ids_delete[OF g])
      ultimately show ?thesis by blast
    qed
    from Cons.IH[OF inv1 dist rest1, of "n + 1"] obtain s' where
      s': "cleanup_loop ?s1 uid cutoff ms (n + 1) = (s', n + 1 + length (filter (expendable cutoff) ms))"
          "memories s' = filter (\<lambda>kv. \<not> (snd kv \<in> set ms \<and> expendable cutoff (snd kv))) (memories ?s1)"
          "length (memories s') + length (filter (expendable cutoff) ms) = length (memories ?s1)"
          "index s' = index ?s1"
          "\<forall>u. user_ids s' u =
            filter (\<lambda>i. \<not> (u = uid \<and> i \<in> mem_id ` {m \<in> set ms. expendable cutoff m})) (user_ids ?s1 u)"
      by blast
    have a: "cleanup_loop s uid cutoff (m # ms) n =
               (s', n + length (filter (expendable cutoff) (m # ms)))"
      using True s'(1) by simp
    have b: "memories s' =
               filter (\<lambda>kv. \<not> (snd kv \<in> set (m # ms) \<and> expendable cutoff (snd kv))) (memories s)"
    proof -
      have "memories s' = filter (\<lambda>kv. fst kv \<noteq> mem_id m \<and>
                 \<not> (snd kv \<in> set ms \<and> expendable cutoff (snd kv))) (memories s)"
        unfolding s'(2) mem1 dict_del_def by (simp add: conj_commute)
      also have "\<dots> = filter (\<lambda>kv. \<not> (snd kv \<in> set (m # ms) \<and> expendable cutoff (snd kv))) (memories s)"
      proof (rule filter_cong[OF refl])
        fix kv assume "kv \<in> set (memories s)"
        from entry_is[OF inv m this] True
        show "(fst kv \<noteq> mem_id m \<and> \<not> (snd kv \<in> set ms \<and> expendable cutoff (snd kv))) =
              (\<not> (snd kv \<in> set (m # ms) \<and> expendable cutoff (snd kv)))"
          by auto
      qed
      finally show ?thesis .
    qed
    have c: "length (memories s') + length (filter (expendable cutoff) (m # ms)) = length (memories s)"
    proof -
      have "length (memories ?s1) + 1 = length (memories s)"
        unfolding mem1 using store_invD(2)[OF inv] m
        by (intro length_dict_del) (simp_all add: in_dict_keys)
      then show ?thesis using s'(3) True by simp
    qed
    have d: "index s' = index s" using s'(4) by (simp add: index_delete)
    have e: "user_ids s' u =
            filter (\<lambda>i. \<not> (u = uid \<and> i \<in> mem_id ` {m' \<in> set (m # ms). expendable cutoff m'})) (user_ids s u)"
      for u
    proof (cases "u = uid")
      case False
      then show ?thesis using s'(5) by (simp add: user_ids_delete[OF g])
    next
      case u: True
      have r: "remove1 (mem_id m) (user_ids s uid) = filter (\<lambda>i. i \<noteq> mem_id m) (user_ids s uid)"
        using user_ids_distinct[OF inv, of uid]
        by (simp add: distinct_remove1_removeAll removeAll_filter_not_eq) (metis)
      have "user_ids s' uid =
              filter (\<lambda>i. i \<notin> mem_id ` {m \<in> set ms. expendable cutoff m})
                (filter (\<lambda>i. i \<noteq> mem_id m) (user_ids s uid))"
        using s'(5) by (simp add: user_ids_delete[OF g] r)
      also have "\<dots> = filter (\<lambda>i. i \<notin> mem_id ` {m' \<in> set (m # ms). expendable cutoff m'}) (user_ids s uid)"
        using True by (auto intro!: filter_cong)
      finally show ?thesis using u by simp
    qed
    show ?thesis using a b c d e by blast
  qed
qed

lemma map_filter_ids:
  "(\<And>i. i \<in> set ids \<Longrightarrow> \<exists>m. map_of d i = Some m \<and> f m = i) \<Longrightarrow>
   map f (List.map_filter (map_of d) ids) = ids"
proof (induction ids)
  case Nil
  then show ?case by (simp add: List.map_filter_def)
next
  case (Cons i ids)
  from Cons.prems[of i] obtain m where m: "map_of d i = Some m" "f m = i" by auto
  have "map f (List.map_filter (map_of d) ids) = ids"
    using Cons.prems by (intro Cons.IH) simp
  then show ?case using m by (simp add: List.map_filter_def)
qed

lemma distinct_map_py_slice_to: "distinct (map f xs) \<Longrightarrow> distinct (map f (py_slice_to xs n))"
  by (simp add: py_slice_to_def take_map[symmetric] del: take_map)

lemma distinct_map_sort_desc: "distinct (map f xs) \<Longrightarrow> distinct (map f (sort_desc k xs))"
proof -
  assume d: "distinct (map f xs)"
  have "mset (map f (sort_desc k xs)) = mset (map f xs)"
    by (simp add: mset_sort_desc)
  then show ?thesis using d by (metis mset_eq_imp_distinct_iff)
qed

lemma considered_props:
  assumes inv: "store_inv s"
  shows "distinct (map mem_id (get_user_context s uid cw))"
    and "\<And>m. m \<in> set (get_user_context s uid cw) \<Longrightarrow>
           map_of (memories s) (mem_id m) = Some m \<and> mem_id m \<in> set (user_ids s uid)"
proof -
  note D = store_invD[OF inv]
  show "distinct (map mem_id (get_user_context s uid cw))"
  proof (cases "map_of (user_memories s) uid")
    case None
    then show ?thesis by (simp add: get_user_context_def)
  next
    case (Some ids)
    have "\<exists>m. map_of (memories s) i = Some m \<and> mem_id m = i" if "i \<in> set ids" for i
    proof -
      from consistentD1[OF D(1) Some that] obtain m where m: "map_of (memories s) i = Some m" by blast
      then have "mem_id m = i" by (rule D(5))
      then show ?thesis using m by blast
    qed
    then have "map mem_id (owned_memories s ids) = ids"
      unfolding owned_memories_def by (rule map_filter_ids)
    then have "distinct (map mem_id (owned_memories s ids))" using D(4)[OF Some] by simp
    then show ?thesis
      using Some by (simp add: get_user_context_def distinct_map_py_slice_to distinct_map_sort_desc)
  qed
  show "map_of (memories s) (mem_id m) = Some m \<and> mem_id m \<in> set (user_ids s uid)"
    if h: "m \<in> set (get_user_context s uid cw)" for m
  proof (cases "map_of (user_memories s) uid")
    case None
    then show ?thesis using h by (simp add: get_user_context_def)
  next
    case (Some ids)
    then have "m \<in> set (owned_memories s ids)" using h get_user_context_subset by blast
    then obtain i where i: "i \<in> set ids" "map_of (memories s) i = Some m"
      by (auto simp: owned_memories_set)
    have "mem_id m = i" using i(2) by (rule D(5))
    then show ?thesis using i Some by (simp add: user_ids_def)
  qed
qed

lemma map_of_filter_keep:
  "map_of d k = Some v \<Longrightarrow> P (k, v) \<Longrightarrow> map_of (filter P d) k = Some v"
  by (induction d) (auto split: if_splits)

lemma map_of_filter_drop:
  "distinct (dict_keys d) \<Longrightarrow> map_of d k = Some v \<Longrightarrow> \<not> P (k, v) \<Longrightarrow> map_of (filter P d) k = None"
proof (induction d)
  case Nil
  then show ?case by simp
next
  case (Cons kv d)
  show ?case
  proof (cases "fst kv = k")
    case True
    then have "kv = (k, v)" using Cons.prems(2) by (cases kv) simp
    moreover have "k \<notin> fst ` set d" using Cons.prems(1) True by (simp add: dict_keys_def)
    then have "map_of (filter P d) k = None" by (force simp: map_of_eq_None_iff)
    ultimately show ?thesis using Cons.prems(3) by simp
  next
    case False
    then have "map_of d k = Some v" "distinct (dict_keys d)"
      using Cons.prems by (auto simp: dict_keys_def)
    then have "map_of (filter P d) k = None" using Cons.IH Cons.prems(3) by blast
    then show ?thesis using False by (cases kv) simp
  qed
qed

lemma cutoff_date_ok:
  assumes "- 999999999 \<le> days" "days \<le> 999999999"
    and "0 \<le> now - days * 86400000000" "now - days * 86400000000 \<le> datetime_max"
  shows "cutoff_date now days = Inr (now - days * 86400000000)"
  using assms by (simp add: cutoff_date_def timedelta_days_def datetime_sub_def)

text \<open>
  C1. On a store satisfying the invariant, with a cutoff
  \<open>now - retention_days\<close> that is a \<open>datetime\<close>, \<open>cleanup_old_memories\<close> returns, and
  what is left of \<open>memories\<close> is what was there minus the considered entries
  (\<open>get_user_context\<close> with window 1000) that are older than the cutoff, of importance
  below 0.7 and of a type other than \<open>goal_update\<close> and \<open>insight\<close>; the count returned is
  the number of entries removed. An entry of importance at least 0.7, or not older than
  the cutoff, or of one of the two types, or not considered, stays.
\<close>

theorem cleanup_old_memories_retention:
  assumes "store_inv s"
    and "- 999999999 \<le> retention_days" and "retention_days \<le> 999999999"
    and "0 \<le> now - retention_days * 86400000000"
    and "now - retention_days * 86400000000 \<le> datetime_max"
  shows "\<exists>s' n. cleanup_old_memories s now uid retention_days = Inr (s', n) \<and>
     memories s' =
       filter (\<lambda>kv. \<not> (snd kv \<in> set (get_user_context s uid 1000) \<and>
                         expendable (now - retention_days * 86400000000) (snd kv))) (memories s) \<and>
     n = length (filter (expendable (now - retention_days * 86400000000))
                   (get_user_context s uid 1000)) \<and>
     length (memories s') + n = length (memories s) \<and>
     (\<forall>k m. map_of (memories s) k = Some m \<and> m \<in> set (get_user_context s uid 1000) \<and>
            created_at m < now - retention_days * 86400000000 \<and> importance m < 7 / 10 \<and>
            mem_type m \<noteq> ''goal_update'' \<and> mem_type m \<noteq> ''insight''
            \<longrightarrow> map_of (memories s') k = None \<and> k \<notin> set (user_ids s' uid)) \<and>
     (\<forall>k m. map_of (memories s) k = Some m \<and>
            (7 / 10 \<le> importance m \<or> now - retention_days * 86400000000 \<le> created_at m \<or>
             mem_type m = ''goal_update'' \<or> mem_type m = ''insight'' \<or>
             m \<notin> set (get_user_context s uid 1000))
            \<longrightarrow> map_of (memories s') k = Some m)"
proof -
  let ?cutoff = "now - retention_days * 86400000000"
  let ?C = "get_user_context s uid 1000"
  let ?P = "\<lambda>kv. \<not> (snd kv \<in> set ?C \<and> expendable ?cutoff (snd kv))"
  have cd: "cutoff_date now retention_days = Inr ?cutoff"
    using assms(2-5) by (rule cutoff_date_ok)
  have c1: "distinct (map mem_id ?C)" by (rule considered_props(1)[OF assms(1)])
  have c2: "map_of (memories s) (mem_id m) = Some m \<and> mem_id m \<in> set (user_ids s uid)"
    if "m \<in> set ?C" for m
    using that by (rule considered_props(2)[OF assms(1)])
  from cleanup_loop_spec[OF assms(1) c1 c2, where cutoff = ?cutoff and n = 0]
  obtain s' where
    s': "cleanup_loop s uid ?cutoff ?C 0 = (s', 0 + length (filter (expendable ?cutoff) ?C))"
        "memories s' = filter ?P (memories s)"
        "length (memories s') + length (filter (expendable ?cutoff) ?C) = length (memories s)"
        "\<forall>u. user_ids s' u =
            filter (\<lambda>i. \<not> (u = uid \<and> i \<in> mem_id ` {m \<in> set ?C. expendable ?cutoff m})) (user_ids s u)"
    by blast
  let ?n = "length (filter (expendable ?cutoff) ?C)"
  have r: "cleanup_old_memories s now uid retention_days = Inr (s', ?n)"
    using s'(1) by (simp add: cleanup_old_memories_def cd)
  have gone: "map_of (memories s') k = None \<and> k \<notin> set (user_ids s' uid)"
    if h: "map_of (memories s) k = Some m \<and> m \<in> set ?C \<and>
            created_at m < ?cutoff \<and> importance m < 7 / 10 \<and>
            mem_type m \<noteq> ''goal_update'' \<and> mem_type m \<noteq> ''insight''" for k m
  proof -
    have e: "expendable ?cutoff m" using h by (simp add: expendable_def)
    have k: "mem_id m = k" using h store_invD(5)[OF assms(1)] by blast
    have mk: "map_of (memories s) k = Some m" using h by blast
    have np: "\<not> ?P (k, m)" using h e by simp
    have 1: "map_of (memories s') k = None"
      unfolding s'(2) by (rule map_of_filter_drop[where P = ?P, OF store_invD(2)[OF assms(1)] mk np])
    have "k \<in> mem_id ` {m \<in> set ?C. expendable ?cutoff m}" using h e k by blast
    then have 2: "k \<notin> set (user_ids s' uid)" using s'(4) by simp
    show ?thesis using 1 2 by blast
  qed
  have kept: "map_of (memories s') k = Some m"
    if h: "map_of (memories s) k = Some m \<and>
            (7 / 10 \<le> importance m \<or> ?cutoff \<le> created_at m \<or>
             mem_type m = ''goal_update'' \<or> mem_type m = ''insight'' \<or> m \<notin> set ?C)" for k m
  proof -
    have mk: "map_of (memories s) k = Some m" using h by blast
    have p: "?P (k, m)" using h by (auto simp: expendable_def)
    show ?thesis unfolding s'(2) by (rule map_of_filter_keep[where P = ?P, OF mk p])
  qed
  show ?thesis
    using r s'(2) s'(3) gone kept by blast
qed

theorem cleanup_old_memories_retention_witness:
  "store_inv (run toy_encoder (new_store no_files)
      [Add ''m1'' 10 ''alice'' ''hello'' ''conversation'' None (1 / 2),
       Add ''m2'' 10 ''alice'' ''offer'' ''conversation'' None (9 / 10),
       Add ''m3'' 10 ''alice'' ''pattern'' ''insight'' None (1 / 2),
       Add ''m4'' 9000000000000 ''alice'' ''recent'' ''conversation'' None (1 / 2),
       Add ''m5'' 10 ''bob'' ''other'' ''conversation'' None (1 / 2)]) \<and>
   - 999999999 \<le> (365::int) \<and> (365::int) \<le> 999999999 \<and>
   (0::int) \<le> 40000000000000 - 365 * 86400000000 \<and>
   40000000000000 - 365 * 86400000000 \<le> datetime_max \<and>
   (\<exists>s'. cleanup_old_memories (run toy_encoder (new_store no_files)
      [Add ''m1'' 10 ''alice'' ''hello'' ''conversation'' None (1 / 2),
       Add ''m2'' 10 ''alice'' ''offer'' ''conversation'' None (9 / 10),
       Add ''m3'' 10 ''alice'' ''pattern'' ''insight'' None (1 / 2),
       Add ''m4'' 9000000000000 ''alice'' ''recent'' ''conversation'' None (1 / 2),
       Add ''m5'' 10 ''bob'' ''other'' ''conversation'' None (1 / 2)])
        40000000000000 ''alice'' 365 = Inr (s', 1) \<and>
      dict_keys (memories s') = [''m2'', ''m3'', ''m4'', ''m5''])"
proof -
  let ?ops = "[Add ''m1'' 10 ''alice'' ''hello'' ''conversation'' None (1 / 2),
       Add ''m2'' 10 ''alice'' ''offer'' ''conversation'' None (9 / 10),
       Add ''m3'' 10 ''alice'' ''pattern'' ''insight'' None (1 / 2),
       Add ''m4'' 9000000000000 ''alice'' ''recent'' ''conversation'' None (1 / 2),
       Add ''m5'' 10 ''bob'' ''other'' ''conversation'' None (1 / 2)]"
  let ?s = "run toy_encoder (new_store no_files) ?ops"
  have f: "fresh_run toy_encoder (new_store no_files) ?ops" by (simp add: store_eval)
  have inv: "store_inv ?s" using store_inv_new f by (rule store_inv_run)
  have a: "- 999999999 \<le> (365::int)" "(365::int) \<le> 999999999"
    "(0::int) \<le> 40000000000000 - 365 * 86400000000"
    "40000000000000 - 365 * 86400000000 \<le> datetime_max"
    by (simp_all add: datetime_max_def)
  from cleanup_old_memories_retention[OF inv a, of "''alice''"] obtain s' n where
    r: "cleanup_old_memories ?s 40000000000000 ''alice'' 365 = Inr (s', n)"
       "memories s' =
       filter (\<lambda>kv. \<not> (snd kv \<in> set (get_user_context ?s ''alice'' 1000) \<and>
                         expendable (40000000000000 - 365 * 86400000000) (snd kv))) (memories ?s)"
       "n = length (filter (expendable (40000000000000 - 365 * 86400000000))
                   (get_user_context ?s ''alice'' 1000))"
    by blast
  have n: "n = 1"
    unfolding r(3)
    by (simp add: store_eval get_user_context_def owned_memories_def List.map_filter_def
        sort_desc_def recency_key_def py_slice_to_def less_eq_prod_def expendable_def)
  have k: "dict_keys (memories s') = [''m2'', ''m3'', ''m4'', ''m5'']"
    unfolding r(2)
    by (simp add: store_eval get_user_context_def owned_memories_def List.map_filter_def
        sort_desc_def recency_key_def py_slice_to_def less_eq_prod_def expendable_def)
  show ?thesis using inv a r(1) n k by blast
qed

subsection \<open>search_memories\<close>

lemma key_at_nonneg:
  "0 \<le> idx \<Longrightarrow>
   key_at d idx = (if idx < int (length d) then Inr (Some (fst (d ! nat idx))) else Inr None)"
  by (simp add: key_at_def py_index_def dict_keys_def)

lemma positional_results_skip:
  "\<not> (0 \<le> idx \<and> idx < int (length (memories s))) \<Longrightarrow>
   positional_results s uids tys (idx # rows) = positional_results s uids tys rows"
  by (simp add: positional_results_def)

lemma positional_results_step:
  "0 \<le> idx \<Longrightarrow> idx < int (length (memories s)) \<Longrightarrow>
   positional_results s uids tys (idx # rows) =
     (if fst (memories s ! nat idx) \<noteq> [] \<and> fst (memories s ! nat idx) \<in> set uids \<and>
         \<not> type_excluded tys (snd (memories s ! nat idx))
      then snd (memories s ! nat idx) # positional_results s uids tys rows
      else positional_results s uids tys rows)"
  by (simp add: positional_results_def)

lemma collect_results_closed:
  assumes "distinct (dict_keys (memories s))"
    and "\<forall>idx \<in> set rows. - 1 \<le> idx"
    and "length acc < nat top_k"
  shows "collect_results s uids tys top_k rows acc =
           Inr (take (nat top_k) (acc @ positional_results s uids tys rows))"
  using assms(2,3)
proof (induction rows arbitrary: acc)
  case Nil
  then show ?case by (simp add: positional_results_def)
next
  case (Cons idx rows)
  have rows: "\<forall>i \<in> set rows. - 1 \<le> i" and lo: "- 1 \<le> idx" using Cons.prems(1) by simp_all
  have acc: "length acc < nat top_k" by (rule Cons.prems(2))
  note IH = Cons.IH[OF rows]
  show ?case
  proof (cases "idx = - 1")
    case True
    then have "positional_results s uids tys (idx # rows) = positional_results s uids tys rows"
      by (intro positional_results_skip) simp
    then show ?thesis using True IH[OF acc] by simp
  next
    case False
    then have nn: "0 \<le> idx" using lo by simp
    show ?thesis
    proof (cases "idx < int (length (memories s))")
      case out: False
      then have "positional_results s uids tys (idx # rows) = positional_results s uids tys rows"
        by (intro positional_results_skip) simp
      then show ?thesis using False out IH[OF acc] by (simp add: key_at_nonneg[OF nn])
    next
      case inr: True
      let ?kv = "memories s ! nat idx"
      have mem: "?kv \<in> set (memories s)" using nn inr by simp
      have look: "map_of (memories s) (fst ?kv) = Some (snd ?kv)"
        using assms(1) mem by (rule map_of_entry)
      note step = positional_results_step[OF nn inr, of uids tys rows]
      show ?thesis
      proof (cases "fst ?kv \<noteq> [] \<and> fst ?kv \<in> set uids")
        case no: False
        then have "positional_results s uids tys (idx # rows) = positional_results s uids tys rows"
          using step by auto
        then show ?thesis using False inr no IH[OF acc]
          by (auto simp: key_at_nonneg[OF nn])
      next
        case yes: True
        show ?thesis
        proof (cases "type_excluded tys (snd ?kv)")
          case True
          then have "positional_results s uids tys (idx # rows) = positional_results s uids tys rows"
            using step by auto
          then show ?thesis using False inr yes True look IH[OF acc]
            by (simp add: key_at_nonneg[OF nn])
        next
          case ok: False
          have pr: "positional_results s uids tys (idx # rows) =
                      snd ?kv # positional_results s uids tys rows"
            using step yes ok by simp
          show ?thesis
          proof (cases "top_k \<le> int (length (acc @ [snd ?kv]))")
            case True
            then have "nat top_k - length acc = Suc 0" using acc by simp
            then have "take (nat top_k) (acc @ snd ?kv # positional_results s uids tys rows) =
                         acc @ [snd ?kv]"
              using acc by simp
            then show ?thesis using \<open>idx \<noteq> - 1\<close> inr yes ok look True pr
              by (simp add: key_at_nonneg[OF nn])
          next
            case more: False
            then have "length (acc @ [snd ?kv]) < nat top_k" by simp
            from IH[OF this] show ?thesis using \<open>idx \<noteq> - 1\<close> inr yes ok look more pr
              by (simp add: key_at_nonneg[OF nn])
          qed
        qed
      qed
    qed
  qed
qed

lemmas search_eval =
  search_memories_def IndexFlatIP_search_def inner_product_def sort_desc_def key_at_def
  py_index_def type_excluded_def positional_results_def

lemma example_state:
  "run toy_encoder (new_store no_files)
      [Add ''mA'' 10 ''alice'' ''ab'' ''conversation'' None (1 / 2),
       Add ''mB'' 20 ''alice'' ''abc'' ''conversation'' None (1 / 2),
       Delete ''mA'' ''alice'']
   = \<lparr>index = [[1, 0], [0, 1]],
      memories = [(''mB'', \<lparr>mem_id = ''mB'', user_id = ''alice'', content = ''abc'',
                     mem_type = ''conversation'', metadata = [], embedding = Some [0, 1],
                     created_at = 20, importance = 1 / 2\<rparr>)],
      user_memories = [(''alice'', [''mB''])],
      disk = \<lparr>index_file = Some [[1, 0], [0, 1]],
               memories_file = Some ([(''mB'', \<lparr>mem_id = ''mB'', user_id = ''alice'', content = ''abc'',
                     mem_type = ''conversation'', metadata = [], embedding = Some [0, 1],
                     created_at = 20, importance = 1 / 2\<rparr>)], [(''alice'', [''mB''])])\<rparr>,
      io_log = [WriteIndex, WriteMemories, WriteIndex, WriteMemories, WriteIndex, WriteMemories]\<rparr>"
  by (simp add: store_eval)

lemma example_search:
  "IndexFlatIP_search [[1, 0], [0, 1]] (normalize_L2 (toy_encoder ''ab'')) 1 = Inr [0]"
  by (simp add: search_eval store_eval upt_rec[of 0] upt_rec[of 1] upt_rec[of 2])


lemma example_search_row:
  "IndexFlatIP_search [[1, 0], [0, 1]] [1, 0] 1 = Inr [0]"
  by (simp add: search_eval upt_rec[of 0] upt_rec[of 1] upt_rec[of 2])

text \<open>
  C3. \<open>search_memories\<close> resolves the rows FAISS returns by position: whenever the
  search succeeds with the labels \<open>rows\<close> (each \<open>-1\<close> or a row number) and \<open>top_k\<close> is
  positive, the result is the first \<open>top_k\<close> of the entries standing at these positions
  of \<open>memories\<close> in insertion order, kept when their key is in the user's list and their
  type passes. Rows and positions drift apart: after two \<open>add_memory\<close> calls and a
  \<open>delete_memory\<close> of the first memory, row 0 of the index still holds the first memory's
  (normalised) embedding, position 0 of \<open>memories\<close> is the second memory, and a search
  for the first memory's text returns the second memory, whose embedding is another vector.
\<close>

theorem search_resolves_rows_by_position:
  "(distinct (dict_keys (memories s)) \<and> map_of (user_memories s) uid = Some ids \<and> ids \<noteq> [] \<and>
    0 < top_k \<and>
    faiss_search (index s) (normalize_L2 (enc query))
      (min (top_k * 3) (int (length (memories s)))) = Inr rows \<and>
    (\<forall>idx \<in> set rows. - 1 \<le> idx)
    \<longrightarrow> search_memories faiss_search enc s uid query top_k memory_types =
          Inr (take (nat top_k) (positional_results s ids memory_types rows))) \<and>
   index (run toy_encoder (new_store no_files)
      [Add ''mA'' 10 ''alice'' ''ab'' ''conversation'' None (1 / 2),
       Add ''mB'' 20 ''alice'' ''abc'' ''conversation'' None (1 / 2),
       Delete ''mA'' ''alice'']) ! 0 = normalize_L2 (toy_encoder ''ab'') \<and>
   key_at (memories (run toy_encoder (new_store no_files)
      [Add ''mA'' 10 ''alice'' ''ab'' ''conversation'' None (1 / 2),
       Add ''mB'' 20 ''alice'' ''abc'' ''conversation'' None (1 / 2),
       Delete ''mA'' ''alice''])) 0 = Inr (Some ''mB'') \<and>
   (\<exists>m. search_memories IndexFlatIP_search toy_encoder
          (run toy_encoder (new_store no_files)
            [Add ''mA'' 10 ''alice'' ''ab'' ''conversation'' None (1 / 2),
             Add ''mB'' 20 ''alice'' ''abc'' ''conversation'' None (1 / 2),
             Delete ''mA'' ''alice'']) ''alice'' ''ab'' 1 None = Inr [m] \<and>
        mem_id m = ''mB'' \<and> content m = ''abc'' \<and> embedding m = Some (toy_encoder ''abc'') \<and>
        normalize_L2 (toy_encoder ''abc'') \<noteq> normalize_L2 (toy_encoder ''ab''))"
proof (intro conjI impI)
  assume h: "distinct (dict_keys (memories s)) \<and> map_of (user_memories s) uid = Some ids \<and> ids \<noteq> [] \<and>
    0 < top_k \<and>
    faiss_search (index s) (normalize_L2 (enc query))
      (min (top_k * 3) (int (length (memories s)))) = Inr rows \<and>
    (\<forall>idx \<in> set rows. - 1 \<le> idx)"
  then have d: "distinct (dict_keys (memories s))" and r: "\<forall>idx \<in> set rows. - 1 \<le> idx"
    and k: "length ([]::MemoryEntry list) < nat top_k" by simp_all
  have "search_memories faiss_search enc s uid query top_k memory_types =
          collect_results s ids memory_types top_k rows []"
    using h by (simp add: search_memories_def user_ids_def)
  then show "search_memories faiss_search enc s uid query top_k memory_types =
          Inr (take (nat top_k) (positional_results s ids memory_types rows))"
    using collect_results_closed[OF d r k, where uids = ids and tys = memory_types]
    by simp
next
  show "index (run toy_encoder (new_store no_files)
      [Add ''mA'' 10 ''alice'' ''ab'' ''conversation'' None (1 / 2),
       Add ''mB'' 20 ''alice'' ''abc'' ''conversation'' None (1 / 2),
       Delete ''mA'' ''alice'']) ! 0 = normalize_L2 (toy_encoder ''ab'')"
    unfolding example_state by (simp add: toy_encoder_def normalize_L2_def)
next
  show "key_at (memories (run toy_encoder (new_store no_files)
      [Add ''mA'' 10 ''alice'' ''ab'' ''conversation'' None (1 / 2),
       Add ''mB'' 20 ''alice'' ''abc'' ''conversation'' None (1 / 2),
       Delete ''mA'' ''alice''])) 0 = Inr (Some ''mB'')"
    unfolding example_state by (simp add: key_at_def py_index_def dict_keys_def)
next
  show "\<exists>m. search_memories IndexFlatIP_search toy_encoder
          (run toy_encoder (new_store no_files)
            [Add ''mA'' 10 ''alice'' ''ab'' ''conversation'' None (1 / 2),
             Add ''mB'' 20 ''alice'' ''abc'' ''conversation'' None (1 / 2),
             Delete ''mA'' ''alice'']) ''alice'' ''ab'' 1 None = Inr [m] \<and>
        mem_id m = ''mB'' \<and> content m = ''abc'' \<and> embedding m = Some (toy_encoder ''abc'') \<and>
        normalize_L2 (toy_encoder ''abc'') \<noteq> normalize_L2 (toy_encoder ''ab'')"
    unfolding example_state
    by (simp add: search_memories_def user_ids_def example_search_row key_at_def py_index_def
        dict_keys_def type_excluded_def toy_encoder_def normalize_L2_def)
qed

theorem search_resolves_rows_by_position_witness:
  "distinct (dict_keys (memories (run toy_encoder (new_store no_files)
      [Add ''mA'' 10 ''alice'' ''ab'' ''conversation'' None (1 / 2),
       Add ''mB'' 20 ''alice'' ''abc'' ''conversation'' None (1 / 2),
       Delete ''mA'' ''alice'']))) \<and>
   map_of (user_memories (run toy_encoder (new_store no_files)
      [Add ''mA'' 10 ''alice'' ''ab'' ''conversation'' None (1 / 2),
       Add ''mB'' 20 ''alice'' ''abc'' ''conversation'' None (1 / 2),
       Delete ''mA'' ''alice''])) ''alice'' = Some [''mB''] \<and> [''mB''] \<noteq> [] \<and> (0::int) < 1 \<and>
   IndexFlatIP_search (index (run toy_encoder (new_store no_files)
      [Add ''mA'' 10 ''alice'' ''ab'' ''conversation'' None (1 / 2),
       Add ''mB'' 20 ''alice'' ''abc'' ''conversation'' None (1 / 2),
       Delete ''mA'' ''alice''])) (normalize_L2 (toy_encoder ''ab''))
      (min (1 * 3) (int (length (memories (run toy_encoder (new_store no_files)
      [Add ''mA'' 10 ''alice'' ''ab'' ''conversation'' None (1 / 2),
       Add ''mB'' 20 ''alice'' ''abc'' ''conversation'' None (1 / 2),
       Delete ''mA'' ''alice'']))))) = Inr [0] \<and>
   (- 1 :: int) \<le> 0 \<and>
   map mem_id (positional_results (run toy_encoder (new_store no_files)
      [Add ''mA'' 10 ''alice'' ''ab'' ''conversation'' None (1 / 2),
       Add ''mB'' 20 ''alice'' ''abc'' ''conversation'' None (1 / 2),
       Delete ''mA'' ''alice'']) [''mB''] None [0]) = [''mB''] \<and>
   search_memories IndexFlatIP_search toy_encoder (run toy_encoder (new_store no_files)
      [Add ''mA'' 10 ''alice'' ''ab'' ''conversation'' None (1 / 2),
       Add ''mB'' 20 ''alice'' ''abc'' ''conversation'' None (1 / 2),
       Delete ''mA'' ''alice'']) ''alice'' ''ab'' 1 None =
     Inr (take (nat 1) (positional_results (run toy_encoder (new_store no_files)
      [Add ''mA'' 10 ''alice'' ''ab'' ''conversation'' None (1 / 2),
       Add ''mB'' 20 ''alice'' ''abc'' ''conversation'' None (1 / 2),
       Delete ''mA'' ''alice'']) [''mB''] None [0]))"
proof -
  let ?s = "run toy_encoder (new_store no_files)
      [Add ''mA'' 10 ''alice'' ''ab'' ''conversation'' None (1 / 2),
       Add ''mB'' 20 ''alice'' ''abc'' ''conversation'' None (1 / 2),
       Delete ''mA'' ''alice'']"
  have hyp: "distinct (dict_keys (memories ?s)) \<and>
      map_of (user_memories ?s) ''alice'' = Some [''mB''] \<and> [''mB''] \<noteq> [] \<and> (0::int) < 1 \<and>
      IndexFlatIP_search (index ?s) (normalize_L2 (toy_encoder ''ab''))
        (min (1 * 3) (int (length (memories ?s)))) = Inr [0] \<and>
      (\<forall>idx \<in> set [0::int]. - 1 \<le> idx)"
    unfolding example_state by (simp add: example_search dict_keys_def)
  have pr: "map mem_id (positional_results ?s [''mB''] None [0]) = [''mB'']"
    unfolding example_state by (simp add: positional_results_def type_excluded_def)
  from search_resolves_rows_by_position[of ?s "''alice''" "[''mB'']" 1 IndexFlatIP_search
      toy_encoder "''ab''" "[0]" None] hyp
  have "search_memories IndexFlatIP_search toy_encoder ?s ''alice'' ''ab'' 1 None =
     Inr (take (nat 1) (positional_results ?s [''mB''] None [0]))"
    by blast
  with hyp pr show ?thesis by simp
qed

section \<open>Proofs: the task planner\<close>

lemma contains_iff: "contains k s \<longleftrightarrow> occurs_in k s"
proof (induction s)
  case Nil
  show ?case by (auto simp: occurs_in_def)
next
  case (Cons c s)
  show ?case
  proof
    assume "contains k (c # s)"
    then consider "prefix k (c # s)" | "contains k s" by auto
    then show "occurs_in k (c # s)"
    proof cases
      case 1
      then obtain r where "c # s = k @ r" by (auto simp: prefix_def)
      then have "c # s = [] @ k @ r" by simp
      then show ?thesis unfolding occurs_in_def by blast
    next
      case 2
      then obtain b a where "s = b @ k @ a" using Cons.IH by (auto simp: occurs_in_def)
      then have "c # s = (c # b) @ k @ a" by simp
      then show ?thesis unfolding occurs_in_def by blast
    qed
  next
    assume "occurs_in k (c # s)"
    then obtain b a where e: "c # s = b @ k @ a" by (auto simp: occurs_in_def)
    show "contains k (c # s)"
    proof (cases b)
      case Nil
      then have "prefix k (c # s)" using e by (simp add: prefix_def)
      then show ?thesis by simp
    next
      case (Cons b0 bs)
      then have "s = bs @ k @ a" using e by simp
      then have "occurs_in k s" unfolding occurs_in_def by blast
      then show ?thesis using Cons.IH by simp
    qed
  qed
qed

lemma occurs_in_lower: "occurs_in k s \<Longrightarrow> occurs_in (lower k) (lower s)"
  unfolding occurs_in_def lower_def by (metis map_append)

lemma lower_developer: "lower ''developer'' = ''developer''"
  by (simp add: lower_def lower_char_def)

text \<open>
  C6. \<open>_categorize_goal\<close> lowercases the description and returns the first category,
  in the order software_developer, data_scientist, product_manager, marketing, sales, one
  of whose words occurs in the lowercased text as a substring, and \<open>general\<close> when no
  word occurs. A description in which \<open>developer\<close> occurs is a \<open>software_developer\<close>
  goal whatever else it says.
\<close>

theorem categorize_goal_first_match:
  "categorize_goal description = first_matching_category (lower description) \<and>
   (occurs_in ''developer'' description \<longrightarrow> categorize_goal description = ''software_developer'')"
proof
  show 1: "categorize_goal description = first_matching_category (lower description)"
    by (simp add: categorize_goal_def first_matching_category_def category_keywords_def
        contains_iff Let_def)
  show "occurs_in ''developer'' description \<longrightarrow> categorize_goal description = ''software_developer''"
  proof
    assume "occurs_in ''developer'' description"
    then have "occurs_in ''developer'' (lower description)"
      using occurs_in_lower[of "''developer''" description] by (simp only: lower_developer)
    then show "categorize_goal description = ''software_developer''"
      by (simp add: categorize_goal_def contains_iff Let_def)
  qed
qed

theorem categorize_goal_first_match_witness:
  "occurs_in ''developer'' ''Lead data developer'' \<and>
   categorize_goal ''Lead data developer'' = ''software_developer'' \<and>
   first_matching_category (lower ''Lead data developer'') = ''software_developer''"
proof -
  have "contains ''developer'' ''Lead data developer''" by simp
  then have h: "occurs_in ''developer'' ''Lead data developer''" by (simp only: contains_iff)
  from categorize_goal_first_match[of "''Lead data developer''"] h show ?thesis by metis
qed

text \<open>The four cases of the repository's test \<open>test_categorize_goal\<close>.\<close>

lemma categorize_goal_tests:
  "categorize_goal ''Become a full-stack developer'' = ''software_developer''"
  "categorize_goal ''Learn machine learning and data analytics'' = ''data_scientist''"
  "categorize_goal ''Become a product manager'' = ''product_manager''"
  "categorize_goal ''Improve my leadership skills'' = ''general''"
  by (simp_all add: categorize_goal_def lower_def lower_char_def Let_def)

lemma factor_score_Str: "factor_score (Str v) = level_score v"
  by (simp add: scores_def level_score_def)

lemma level_score_le: "level_score v \<le> 8 / 10"
  by (simp add: level_score_def)

text \<open>
  C7. For the factors dict that \<open>_analyze_goal_complexity\<close> builds,
  \<open>_calculate_complexity_score\<close> is the weighted sum
  \<open>0.3 s(skill_gap) + 0.2 s(time_constraint) + 0.2 s(resource_requirements) +
  0.3 min(0.8, 0.1 n)\<close> for \<open>n\<close> dependencies, with \<open>s\<close> 0.2, 0.5, 0.8 on low, medium,
  high and 0.5 on any other string; it never exceeds 0.8. \<open>_select_optimal_strategy\<close>
  returns MILESTONE above 0.7, else PARALLEL when the time constraint is high, else
  LINEAR below 0.3, else MILESTONE.
\<close>

theorem complexity_score_and_strategy:
  "calculate_complexity_score
     [(''skill_gap'', Str skill_gap), (''time_constraint'', Str time_constraint),
      (''resource_requirements'', Str resource_requirements), (''dependencies'', Lst dependencies)]
     = 3 / 10 * level_score skill_gap + 2 / 10 * level_score time_constraint +
       2 / 10 * level_score resource_requirements +
       3 / 10 * min (8 / 10) (1 / 10 * real (length dependencies)) \<and>
   level_score ''low'' = 2 / 10 \<and> level_score ''medium'' = 5 / 10 \<and> level_score ''high'' = 8 / 10 \<and>
   (other \<notin> {''low'', ''medium'', ''high''} \<longrightarrow> level_score other = 5 / 10) \<and>
   calculate_complexity_score
     [(''skill_gap'', Str skill_gap), (''time_constraint'', Str time_constraint),
      (''resource_requirements'', Str resource_requirements), (''dependencies'', Lst dependencies)]
     \<le> 8 / 10 \<and>
   select_optimal_strategy
     \<lparr>complexity_factors =
        [(''skill_gap'', Str skill_gap), (''time_constraint'', Str time_constraint),
         (''resource_requirements'', Str resource_requirements), (''dependencies'', Lst dependencies)],
      complexity_score = score\<rparr>
     = Inr (if score > 7 / 10 then MILESTONE
            else if time_constraint = ''high'' then PARALLEL
            else if score < 3 / 10 then LINEAR
            else MILESTONE)"
proof -
  let ?f = "[(''skill_gap'', Str skill_gap), (''time_constraint'', Str time_constraint),
      (''resource_requirements'', Str resource_requirements), (''dependencies'', Lst dependencies)]"
  have e: "calculate_complexity_score ?f
     = 3 / 10 * level_score skill_gap + 2 / 10 * level_score time_constraint +
       2 / 10 * level_score resource_requirements +
       3 / 10 * min (8 / 10) (1 / 10 * real (length dependencies))"
    unfolding calculate_complexity_score_def
    by (simp add: weights_def factor_score_Str del: factor_score.simps(1))
  have b: "calculate_complexity_score ?f \<le> 8 / 10"
    unfolding e
    using level_score_le[of skill_gap] level_score_le[of time_constraint]
      level_score_le[of resource_requirements]
    by (simp add: min_def)
  have l: "level_score ''low'' = 2 / 10" "level_score ''medium'' = 5 / 10"
    "level_score ''high'' = 8 / 10"
    "other \<notin> {''low'', ''medium'', ''high''} \<longrightarrow> level_score other = 5 / 10"
    by (simp_all add: level_score_def)
  have s: "select_optimal_strategy \<lparr>complexity_factors = ?f, complexity_score = score\<rparr>
     = Inr (if score > 7 / 10 then MILESTONE
            else if time_constraint = ''high'' then PARALLEL
            else if score < 3 / 10 then LINEAR
            else MILESTONE)"
    by (simp add: select_optimal_strategy_def)
  show ?thesis using e b l s by blast
qed

theorem complexity_score_and_strategy_witness:
  "''unknown'' \<notin> {''low'', ''medium'', ''high''} \<and> level_score ''unknown'' = 5 / 10 \<and>
   calculate_complexity_score
     [(''skill_gap'', Str ''unknown''), (''time_constraint'', Str ''high''),
      (''resource_requirements'', Str ''medium''), (''dependencies'', Lst [''resume'', ''portfolio'', ''interview_prep''])]
     = 1 / 2 \<and>
   select_optimal_strategy
     \<lparr>complexity_factors =
        [(''skill_gap'', Str ''unknown''), (''time_constraint'', Str ''high''),
         (''resource_requirements'', Str ''medium''), (''dependencies'', Lst [''resume'', ''portfolio'', ''interview_prep''])],
      complexity_score = 1 / 2\<rparr> = Inr PARALLEL"
  using complexity_score_and_strategy[of "''unknown''" "''high''" "''medium''"
      "[''resume'', ''portfolio'', ''interview_prep'']" "''unknown''" "1 / 2"]
  by (simp add: level_score_def)

section \<open>Proofs: the chat service\<close>

text \<open>
  C8. \<open>generate_response\<close> never raises: it always returns a string, and it runs the
  model once, whether that succeeds or not. When the generation path raises, the error is
  logged and the result is the fixed fallback for the sentiment label: its own text for
  \<open>positive\<close>, \<open>negative\<close> and \<open>neutral\<close>, the neutral text for any other label.
\<close>

theorem generate_response_never_raises:
  "(\<exists>r. fst (generate_response model_reply r1 r2 st user_message sentiment_label
              conversation_history) = Inr r) \<and>
   generate_calls (snd (generate_response model_reply r1 r2 st user_message sentiment_label
              conversation_history)) = generate_calls st + 1 \<and>
   (model_reply (generate_calls st) (prepare_context user_message conversation_history)
      = Inl (Exception msg) \<longrightarrow>
    fst (generate_response model_reply r1 r2 st user_message sentiment_label conversation_history)
      = Inr (get_fallback_response sentiment_label) \<and>
    error_log (snd (generate_response model_reply r1 r2 st user_message sentiment_label
                      conversation_history))
      = error_log st @ [''Error generating AI response: '' @ msg]) \<and>
   get_fallback_response ''positive'' = ''I'm so glad you're feeling good! It's wonderful to hear positive thoughts. How can I help you maintain this positive mood?'' \<and>
   get_fallback_response ''negative'' = ''I hear that you're going through a tough time, and I want you to know that your feelings are valid. I'm here to support you. What would be most helpful right now?'' \<and>
   get_fallback_response ''neutral'' = ''Thank you for sharing with me. I'm here to listen and provide support. What's on your mind today?'' \<and>
   (sentiment_label \<notin> {''positive'', ''negative'', ''neutral''} \<longrightarrow>
      get_fallback_response sentiment_label = get_fallback_response ''neutral'')"
proof -
  let ?g = "generate_response model_reply r1 r2 st user_message sentiment_label conversation_history"
  let ?m = "model_reply (generate_calls st) (prepare_context user_message conversation_history)"
  have a: "\<exists>r. fst ?g = Inr r"
  proof (cases ?m)
    case (Inl e)
    then show ?thesis
      by (cases e) (simp add: generate_response_def generation_path_def Let_def)
  next
    case (Inr resp)
    then show ?thesis by (simp add: generate_response_def generation_path_def Let_def)
  qed
  have b: "generate_calls (snd ?g) = generate_calls st + 1"
  proof (cases ?m)
    case (Inl e)
    then show ?thesis
      by (cases e) (simp add: generate_response_def generation_path_def Let_def)
  next
    case (Inr resp)
    then show ?thesis by (simp add: generate_response_def generation_path_def Let_def)
  qed
  have c: "?m = Inl (Exception msg) \<longrightarrow>
      fst ?g = Inr (get_fallback_response sentiment_label) \<and>
      error_log (snd ?g) = error_log st @ [''Error generating AI response: '' @ msg]"
    by (simp add: generate_response_def generation_path_def Let_def)
  have d: "get_fallback_response ''positive'' = ''I'm so glad you're feeling good! It's wonderful to hear positive thoughts. How can I help you maintain this positive mood?''"
    "get_fallback_response ''negative'' = ''I hear that you're going through a tough time, and I want you to know that your feelings are valid. I'm here to support you. What would be most helpful right now?''"
    "get_fallback_response ''neutral'' = ''Thank you for sharing with me. I'm here to listen and provide support. What's on your mind today?''"
    by (simp_all add: get_fallback_response_def fallback_responses_def)
  have e: "sentiment_label \<notin> {''positive'', ''negative'', ''neutral''} \<longrightarrow>
      get_fallback_response sentiment_label = get_fallback_response ''neutral''"
    by (simp add: get_fallback_response_def fallback_responses_def)
  show ?thesis using a b c d e by blast
qed

theorem generate_response_never_raises_witness:
  "failing_model (generate_calls \<lparr>error_log = [], generate_calls = 0\<rparr>)
       (prepare_context ''I feel low'' None) = Inl (Exception ''CUDA out of memory'') \<and>
   ''mixed'' \<notin> {''positive'', ''negative'', ''neutral''} \<and>
   generate_response failing_model 0 0 \<lparr>error_log = [], generate_calls = 0\<rparr> ''I feel low'' ''mixed'' None
     = (Inr ''Thank you for sharing with me. I'm here to listen and provide support. What's on your mind today?'',
        \<lparr>error_log = [''Error generating AI response: CUDA out of memory''], generate_calls = 1\<rparr>)"
  using generate_response_never_raises[of failing_model 0 0 "\<lparr>error_log = [], generate_calls = 0\<rparr>"
      "''I feel low''" "''mixed''" None "''CUDA out of memory''"]
  by (simp add: failing_model_def generate_response_def generation_path_def Let_def
      get_fallback_response_def fallback_responses_def)

section \<open>Proofs: mood logging\<close>

lemma log_mood_try_moods:
  "moods (snd (log_mood_try db_insert now uid body db)) = moods db \<or>
   (\<exists>r. fst (log_mood_try db_insert now uid body db) = Inr (r, 201))"
  by (auto simp: log_mood_try_def Let_def session_commit_def
      split: sum.splits json.splits option.splits if_splits)

text \<open>
  C10. With a JSON object as body, \<open>POST /api/mood/log\<close> answers 400 and leaves the
  table and the session as they were when \<open>score\<close> is absent, falsy (a score of 0 is
  refused by the first check, as a missing field), not an \<open>int\<close> for Python
  (\<open>isinstance\<close>, which takes JSON \<open>true\<close> for the int 1), or outside 1..5. With a score
  that is an int in 1..5, \<open>notes\<close> absent or a string and an insert the database accepts,
  it appends exactly one row, of the authenticated user and with that score, and answers
  201. Whenever handling raises, it answers 500 with the session rolled back and the
  table unchanged.
\<close>

theorem log_mood_validation:
  "(body = Inr (JObj data) \<and>
      (map_of data ''score'' = None \<or>
       (\<exists>v. map_of data ''score'' = Some v \<and>
            (\<not> truthy v \<or> \<not> isinstance_int v \<or> int_value v < 1 \<or> 5 < int_value v)))
    \<longrightarrow> snd (fst (log_mood db_insert now uid body db)) = 400 \<and>
        moods (snd (log_mood db_insert now uid body db)) = moods db \<and>
        pending (snd (log_mood db_insert now uid body db)) = pending db) \<and>
   (body = Inr (JObj data) \<and> map_of data ''score'' = Some (JInt 0)
    \<longrightarrow> fst (log_mood db_insert now uid body db) = (Error_body ''Mood score (1-5) is required'', 400)) \<and>
   (body = Inr (JObj data) \<and> map_of data ''score'' = Some v \<and> isinstance_int v \<and>
      1 \<le> int_value v \<and> int_value v \<le> 5 \<and> dict_get data ''notes'' (JStr []) = JStr s \<and>
      pending db = [] \<and>
      db_insert \<lparr>nm_user_id = uid, nm_score = int_value v, nm_notes = strip s,
                 nm_tags = dict_get data ''tags'' (JStr [])\<rparr> = Inr t
    \<longrightarrow> snd (fst (log_mood db_insert now uid body db)) = 201 \<and>
        moods (snd (log_mood db_insert now uid body db)) =
          moods db @ [\<lparr>mood_id = next_id (moods db), mood_user_id = uid,
                       mood_score = int_value v, mood_notes = strip s,
                       mood_date_recorded = now, mood_tags = t\<rparr>] \<and>
        pending (snd (log_mood db_insert now uid body db)) = []) \<and>
   (fst (log_mood_try db_insert now uid body db) = Inl e
    \<longrightarrow> fst (log_mood db_insert now uid body db) = (Error_body ''Failed to log mood'', 500) \<and>
        moods (snd (log_mood db_insert now uid body db)) = moods db \<and>
        pending (snd (log_mood db_insert now uid body db)) = [])"
proof (intro conjI impI)
  assume h: "body = Inr (JObj data) \<and>
      (map_of data ''score'' = None \<or>
       (\<exists>v. map_of data ''score'' = Some v \<and>
            (\<not> truthy v \<or> \<not> isinstance_int v \<or> int_value v < 1 \<or> 5 < int_value v)))"
  then have "fst (log_mood_try db_insert now uid body db) = Inr (Error_body ''Mood score (1-5) is required'', 400) \<or>
             fst (log_mood_try db_insert now uid body db) = Inr (Error_body ''Mood score must be between 1 and 5'', 400)"
    and "snd (log_mood_try db_insert now uid body db) = db"
    by (auto simp: log_mood_try_def dict_get_def)
  then show "snd (fst (log_mood db_insert now uid body db)) = 400"
    and "moods (snd (log_mood db_insert now uid body db)) = moods db"
    and "pending (snd (log_mood db_insert now uid body db)) = pending db"
    by (auto simp: log_mood_def split: prod.splits)
next
  assume "body = Inr (JObj data) \<and> map_of data ''score'' = Some (JInt 0)"
  then show "fst (log_mood db_insert now uid body db) = (Error_body ''Mood score (1-5) is required'', 400)"
    by (simp add: log_mood_def log_mood_try_def dict_get_def)
next
  assume h: "body = Inr (JObj data) \<and> map_of data ''score'' = Some v \<and> isinstance_int v \<and>
      1 \<le> int_value v \<and> int_value v \<le> 5 \<and> dict_get data ''notes'' (JStr []) = JStr s \<and>
      pending db = [] \<and>
      db_insert \<lparr>nm_user_id = uid, nm_score = int_value v, nm_notes = strip s,
                 nm_tags = dict_get data ''tags'' (JStr [])\<rparr> = Inr t"
  then have tr: "truthy v" by (cases v) (auto split: if_splits)
  let ?row = "\<lparr>mood_id = next_id (moods db), mood_user_id = uid,
                       mood_score = int_value v, mood_notes = strip s,
                       mood_date_recorded = now, mood_tags = t\<rparr>"
  have "log_mood_try db_insert now uid body db =
          (Inr (Mood_body ''Mood logged successfully'' (to_dict ?row), 201),
           db\<lparr>moods := moods db @ [?row], pending := [],
              app_log := app_log db @ [Info_mood_logged uid (int_value v)]\<rparr>)"
    using h tr by (simp add: log_mood_try_def dict_get_def[of data "''score''"] Let_def session_commit_def)
  then show "snd (fst (log_mood db_insert now uid body db)) = 201"
    and "moods (snd (log_mood db_insert now uid body db)) = moods db @ [?row]"
    and "pending (snd (log_mood db_insert now uid body db)) = []"
    by (simp_all add: log_mood_def)
next
  assume h: "fst (log_mood_try db_insert now uid body db) = Inl e"
  obtain msg where e: "e = Exception msg" by (cases e)
  obtain db1 where t: "log_mood_try db_insert now uid body db = (Inl (Exception msg), db1)"
    using h e by (cases "log_mood_try db_insert now uid body db") simp
  have m: "moods db1 = moods db"
    using log_mood_try_moods[of db_insert now uid body db] t by simp
  show "fst (log_mood db_insert now uid body db) = (Error_body ''Failed to log mood'', 500)"
    and "moods (snd (log_mood db_insert now uid body db)) = moods db"
    and "pending (snd (log_mood db_insert now uid body db)) = []"
    using m by (simp_all add: log_mood_def t session_rollback_def)
qed


theorem log_mood_validation_witness:
  "map_of [(''score'', JInt 0)] ''score'' = Some (JInt 0) \<and> \<not> truthy (JInt 0) \<and>
   fst (log_mood accepting_db 100 7 (Inr (JObj [(''score'', JInt 0)])) empty_db)
     = (Error_body ''Mood score (1-5) is required'', 400) \<and>
   moods (snd (log_mood accepting_db 100 7 (Inr (JObj [(''score'', JInt 0)])) empty_db)) = [] \<and>
   isinstance_int (JInt 4) \<and> 1 \<le> int_value (JInt 4) \<and> int_value (JInt 4) \<le> 5 \<and>
   snd (fst (log_mood accepting_db 100 7
         (Inr (JObj [(''score'', JInt 4), (''notes'', JStr '' calm ''), (''tags'', JStr ''work,rest'')]))
         empty_db)) = 201 \<and>
   moods (snd (log_mood accepting_db 100 7
         (Inr (JObj [(''score'', JInt 4), (''notes'', JStr '' calm ''), (''tags'', JStr ''work,rest'')]))
         empty_db))
     = [\<lparr>mood_id = 1, mood_user_id = 7, mood_score = 4, mood_notes = ''calm'',
         mood_date_recorded = 100, mood_tags = Some ''work,rest''\<rparr>] \<and>
   fst (log_mood_try accepting_db 100 7 (Inr (JObj [(''score'', JInt 3), (''notes'', JNull)])) empty_db)
     = Inl (Exception ''AttributeError'') \<and>
   fst (log_mood accepting_db 100 7 (Inr (JObj [(''score'', JInt 3), (''notes'', JNull)])) empty_db)
     = (Error_body ''Failed to log mood'', 500) \<and>
   moods (snd (log_mood accepting_db 100 7 (Inr (JObj [(''score'', JInt 3), (''notes'', JNull)])) empty_db)) = []"
proof -
  let ?bad = "[(''score'', JInt 0)]"
  let ?good = "[(''score'', JInt 4), (''notes'', JStr '' calm ''), (''tags'', JStr ''work,rest'')]"
  let ?raise = "[(''score'', JInt 3), (''notes'', JNull)]"
  have a: "fst (log_mood accepting_db 100 7 (Inr (JObj ?bad)) empty_db)
             = (Error_body ''Mood score (1-5) is required'', 400) \<and>
           moods (snd (log_mood accepting_db 100 7 (Inr (JObj ?bad)) empty_db)) = []"
    using log_mood_validation[of "Inr (JObj ?bad)" ?bad accepting_db 100 7 empty_db]
    by (simp add: empty_db_def)
  have st: "strip '' calm '' = ''calm''"
    by (simp add: strip_def is_space_def)
  have b: "snd (fst (log_mood accepting_db 100 7 (Inr (JObj ?good)) empty_db)) = 201 \<and>
           moods (snd (log_mood accepting_db 100 7 (Inr (JObj ?good)) empty_db))
             = [\<lparr>mood_id = 1, mood_user_id = 7, mood_score = 4, mood_notes = ''calm'',
                 mood_date_recorded = 100, mood_tags = Some ''work,rest''\<rparr>]"
    using log_mood_validation[of "Inr (JObj ?good)" ?good accepting_db 100 7 empty_db
        "JInt 4" "'' calm ''" "Some ''work,rest''"]
    by (simp add: empty_db_def dict_get_def accepting_db_def st next_id_def)
  have t: "fst (log_mood_try accepting_db 100 7 (Inr (JObj ?raise)) empty_db)
             = Inl (Exception ''AttributeError'')"
    by (simp add: log_mood_try_def dict_get_def)
  have c: "fst (log_mood accepting_db 100 7 (Inr (JObj ?raise)) empty_db)
             = (Error_body ''Failed to log mood'', 500) \<and>
           moods (snd (log_mood accepting_db 100 7 (Inr (JObj ?raise)) empty_db)) = []"
    using log_mood_validation[of "Inr (JObj ?raise)" ?raise accepting_db 100 7 empty_db
        _ _ _ "Exception ''AttributeError''"] t
    by (simp add: empty_db_def)
  show ?thesis using a b t c by simp
qed

text \<open>
  JSON \<open>true\<close> as score passes both checks, being the int 1 for Python, and is logged as
  a score of 1.
\<close>

lemma log_mood_true_score:
  "snd (fst (log_mood accepting_db 100 7 (Inr (JObj [(''score'', JBool True)])) empty_db)) = 201 \<and>
   map mood_score (moods (snd (log_mood accepting_db 100 7 (Inr (JObj [(''score'', JBool True)]))
     empty_db))) = [1]"
  by (simp add: log_mood_def log_mood_try_def dict_get_def Let_def session_commit_def
      accepting_db_def empty_db_def strip_def)

end
